theory Spec2Isabelle
  imports Complex_Main "HOL-Library.Sublist"
begin

section \<open>Python and pandas primitives used by the signal-processing core\<close>

text \<open>
  Exceptions are values. Every \<^verbatim>\<open>raise\<close> of the source, and every exception raised
  by a library call that the source does not guard, is an \<open>Inl\<close> of this type. The
  argument distinguishes the messages.
\<close>

datatype err_msg =
    DimensionMismatch nat nat
  | BadReconstructionMode
  | ZeroSizeReduction
  | EmptyInput
  | EmptyArgmax
  | SeedNotInteger nat
  | IndicesMissing
  | LengthsDiffer nat nat
  | BadWindowLength
  | LabelNotFound string
  | NoneComparison

datatype py_error = ValueError err_msg | TypeError err_msg

text \<open>
  Positional slicing \<^verbatim>\<open>xs[a:b]\<close> as a Python list does it, and a pandas Series under
  an integer index when the bounds are integers: a negative bound counts from the end,
  and both bounds are clipped to the sequence. \<open>slice_bound\<close> is the clipped position
  of one bound.
\<close>

definition slice_bound :: "nat \<Rightarrow> int \<Rightarrow> nat" where
  "slice_bound n a = (if a < 0 then nat (max (a + int n) 0) else min (nat a) n)"

definition py_slice :: "'a list \<Rightarrow> int \<Rightarrow> int \<Rightarrow> 'a list" where
  "py_slice xs a b = drop (slice_bound (length xs) a) (take (slice_bound (length xs) b) xs)"

text \<open>
  \<^verbatim>\<open>argmax\<close> of a non-empty list of reals: the position of the first occurrence of
  the maximum. \<^verbatim>\<open>Series.idxmax\<close> returns the index label found there.
\<close>

fun argmax_first :: "real list \<Rightarrow> nat" where
  "argmax_first [] = 0"
| "argmax_first [x] = 0"
| "argmax_first (x # y # ys) =
     (let j = argmax_first (y # ys) in if (y # ys) ! j \<le> x then 0 else Suc j)"

section \<open>PeakDetector: local-maximum refinement of seed indices\<close>

text \<open>
  \<^verbatim>\<open>peak_correction(seeds, raw_signal, window)\<close>. The raw signal arrives as a list or
  an array, which the function wraps in a Series with the default index \<open>0..N-1\<close>, or
  as a Series, which keeps the index it carries. The index of a Series holds integer
  labels, one per value; on such an index a slice with integer bounds is positional. A
  seed is either a Python integer or some other object; the latter raises.
\<close>

datatype raw_signal = ListOrArray "real list" | Series "int list" "real list"

fun signal_values :: "raw_signal \<Rightarrow> real list" where
  "signal_values (ListOrArray vals) = vals"
| "signal_values (Series idx vals) = vals"

fun signal_index :: "raw_signal \<Rightarrow> int list" where
  "signal_index (ListOrArray vals) = map int [0..<length vals]"
| "signal_index (Series idx vals) = idx"

datatype seed = IntSeed int | OtherSeed

text \<open>
  \<^verbatim>\<open>raw_signal[a:b].idxmax()\<close>: the slice is positional, \<open>argmax_slice\<close> is the position
  in the signal of the first maximum of the slice, and \<^verbatim>\<open>idxmax\<close> returns the index
  label at that position.
\<close>

definition argmax_slice :: "real list \<Rightarrow> int \<Rightarrow> int \<Rightarrow> py_error + nat" where
  "argmax_slice vals a b =
     (if py_slice vals a b = [] then Inl (ValueError EmptyArgmax)
      else Inr (slice_bound (length vals) a + argmax_first (py_slice vals a b)))"

definition idxmax_slice :: "raw_signal \<Rightarrow> int \<Rightarrow> int \<Rightarrow> py_error + int" where
  "idxmax_slice raw a b =
     (case argmax_slice (signal_values raw) a b of
        Inl e \<Rightarrow> Inl e
      | Inr p \<Rightarrow> Inr (signal_index raw ! p))"

fun peak_correction_loop ::
  "nat \<Rightarrow> seed list \<Rightarrow> raw_signal \<Rightarrow> int \<Rightarrow> int list \<Rightarrow> py_error + int list" where
  "peak_correction_loop num [] raw window new_peaks = Inr new_peaks"
| "peak_correction_loop num (OtherSeed # seeds) raw window new_peaks =
     Inl (ValueError (SeedNotInteger num))"
| "peak_correction_loop num (IntSeed s # seeds) raw window new_peaks =
     (if py_slice (signal_values raw) (s - window) (s + window) = []
      then peak_correction_loop (Suc num) seeds raw window new_peaks
      else if s < window - 1
      then (case idxmax_slice raw 0 (window - 1) of
              Inl e \<Rightarrow> Inl e
            | Inr p \<Rightarrow> peak_correction_loop (Suc num) seeds raw window (new_peaks @ [p]))
      else (case idxmax_slice raw (s - window) (s + window) of
              Inl e \<Rightarrow> Inl e
            | Inr p \<Rightarrow> peak_correction_loop (Suc num) seeds raw window (new_peaks @ [p])))"

definition peak_correction :: "seed list \<Rightarrow> raw_signal \<Rightarrow> int \<Rightarrow> py_error + int list" where
  "peak_correction seeds raw window = peak_correction_loop 0 seeds raw window []"


text \<open>
  \<^verbatim>\<open>get_peaks(y, quant, output, **kwargs)\<close> hands the signal to the peak search of
  scipy with the \<open>quant\<close>-quantile of the signal as minimum height. The search scans
  for local maxima: a sample that is larger than its predecessor and is followed,
  after a plateau of equal samples, by a smaller one; the peak is the middle of the
  plateau (rounded down), and the first and the last sample are never peaks.
\<close>

function skip_plateau :: "real list \<Rightarrow> nat \<Rightarrow> nat \<Rightarrow> nat" where
  "skip_plateau x i i_ahead =
     (if i_ahead + 1 < length x \<and> x ! i_ahead = x ! i then skip_plateau x i (i_ahead + 1)
      else i_ahead)"
  by pat_completeness auto
termination
  by (relation "measure (\<lambda>(x, i, i_ahead). length x - i_ahead)") auto

function local_maxima_from :: "real list \<Rightarrow> nat \<Rightarrow> nat list" where
  "local_maxima_from x i =
     (if i + 1 < length x
      then (if x ! (i - 1) < x ! i
            then (let i_ahead = skip_plateau x i (i + 1)
                  in if x ! i_ahead < x ! i
                     then ((i + (i_ahead - 1)) div 2) # local_maxima_from x (i_ahead + 1)
                     else local_maxima_from x (i + 1))
            else local_maxima_from x (i + 1))
      else [])"
  by pat_completeness auto
termination
proof (relation "measure (\<lambda>(x, i). length x - i)")
  show "wf (measure (\<lambda>(x, i). length x - i))" by simp
next
  fix x :: "real list" and i i_ahead :: nat
  assume a: "i + 1 < length x" and b: "i_ahead = skip_plateau x i (i + 1)"
  have ge: "k \<le> skip_plateau z j k" for z j k
  proof (induction z j k rule: skip_plateau.induct)
    case (1 z j k)
    show ?case
    proof (cases "k + 1 < length z \<and> z ! k = z ! j")
      case True
      with 1 have "k + 1 \<le> skip_plateau z j (k + 1)" by simp
      with True show ?thesis by (subst skip_plateau.simps) simp
    next
      case False
      then show ?thesis by (subst skip_plateau.simps) auto
    qed
  qed
  have "i + 1 \<le> i_ahead" unfolding b by (rule ge)
  then show "((x, i_ahead + 1), (x, i)) \<in> measure (\<lambda>(x, i). length x - i)"
    using a by simp
qed auto

declare skip_plateau.simps [simp del]
declare local_maxima_from.simps [simp del]

definition local_maxima_1d :: "real list \<Rightarrow> nat list" where
  "local_maxima_1d x = local_maxima_from x 1"

text \<open>
  The search keeps the local maxima that reach the height and that the further options
  of \<open>kwargs\<close> keep; each option selects a sub-array of the peaks, and \<open>kwargs_keep\<close>
  stands for their selection (constantly true when no option is given). A height of
  \<^verbatim>\<open>NaN\<close> keeps nothing. The properties returned with the peaks hold their heights.
  The quantile is a library routine whose value the claims do not depend on: it is the
  parameter \<open>quantile\<close>.
\<close>

definition find_peaks :: "(nat \<Rightarrow> bool) \<Rightarrow> real list \<Rightarrow> real option \<Rightarrow> nat list \<times> real list" where
  "find_peaks kwargs_keep x height =
     (let peaks = filter (\<lambda>p. (case height of None \<Rightarrow> False | Some h \<Rightarrow> h \<le> x ! p) \<and> kwargs_keep p)
                    (local_maxima_1d x)
      in (peaks, map (\<lambda>p. x ! p) peaks))"

datatype peaks_result = Locs "nat list" | PeaksWithProperties "nat list" "real list"

fun peak_locations :: "peaks_result \<Rightarrow> nat list" where
  "peak_locations (Locs ps) = ps"
| "peak_locations (PeaksWithProperties ps hs) = ps"

definition get_peaks ::
  "(real list \<Rightarrow> real \<Rightarrow> py_error + real option) \<Rightarrow> (nat \<Rightarrow> bool) \<Rightarrow>
   real list \<Rightarrow> real \<Rightarrow> string \<Rightarrow> py_error + peaks_result" where
  "get_peaks quantile kwargs_keep y quant output =
     (case quantile y quant of
        Inl e \<Rightarrow> Inl e
      | Inr height \<Rightarrow>
          let peaks = find_peaks kwargs_keep y height
          in if output = ''locs'' then Inr (Locs (fst peaks))
             else Inr (PeaksWithProperties (fst peaks) (snd peaks)))"

section \<open>Series values: finite numbers and NaN\<close>

text \<open>
  A sample of a pandas Series or a numpy array is a finite real or \<^verbatim>\<open>NaN\<close>; \<open>None\<close>
  is \<^verbatim>\<open>NaN\<close>. Arithmetic is exact on the reals and propagates \<^verbatim>\<open>NaN\<close>; a comparison
  with \<^verbatim>\<open>NaN\<close> is false. Rounding and infinite samples are outside this model.
\<close>

type_synonym fnum = "real option"

fun fadd :: "fnum \<Rightarrow> fnum \<Rightarrow> fnum" where
  "fadd (Some x) (Some y) = Some (x + y)"
| "fadd _ _ = None"

fun fsub :: "fnum \<Rightarrow> fnum \<Rightarrow> fnum" where
  "fsub (Some x) (Some y) = Some (x - y)"
| "fsub _ _ = None"

fun fmul :: "fnum \<Rightarrow> fnum \<Rightarrow> fnum" where
  "fmul (Some x) (Some y) = Some (x * y)"
| "fmul _ _ = None"

fun fabs :: "fnum \<Rightarrow> fnum" where
  "fabs (Some x) = Some \<bar>x\<bar>"
| "fabs None = None"

fun fle :: "fnum \<Rightarrow> real \<Rightarrow> bool" where
  "fle (Some x) c = (x \<le> c)"
| "fle None c = False"

fun fge :: "fnum \<Rightarrow> real \<Rightarrow> bool" where
  "fge (Some x) c = (x \<ge> c)"
| "fge None c = False"

fun fsum :: "fnum list \<Rightarrow> fnum" where
  "fsum [] = Some 0"
| "fsum (x # xs) = fadd x (fsum xs)"

text \<open>\<^verbatim>\<open>Series.fillna(c)\<close> returns a new series; the receiver is unchanged.\<close>

definition fillna :: "real \<Rightarrow> fnum list \<Rightarrow> fnum list" where
  "fillna c xs = map (\<lambda>x. case x of None \<Rightarrow> Some c | Some v \<Rightarrow> Some v) xs"

text \<open>\<^verbatim>\<open>Series.diff()\<close>: the first entry is \<^verbatim>\<open>NaN\<close>, entry \<open>i\<close> is \<open>xs[i] - xs[i-1]\<close>.\<close>

fun series_diff :: "fnum list \<Rightarrow> fnum list" where
  "series_diff [] = []"
| "series_diff (x # xs) = None # map2 fsub xs (x # xs)"

text \<open>The valid (non-\<^verbatim>\<open>NaN\<close>) entries, which the pandas reductions work on.\<close>

definition valid_values :: "fnum list \<Rightarrow> real list" where
  "valid_values xs = concat (map (\<lambda>x. case x of None \<Rightarrow> [] | Some v \<Rightarrow> [v]) xs)"

text \<open>\<^verbatim>\<open>Series.max()\<close> and \<^verbatim>\<open>Series.mean()\<close> skip \<^verbatim>\<open>NaN\<close> and give \<^verbatim>\<open>NaN\<close> when nothing is left.\<close>

definition series_max :: "fnum list \<Rightarrow> fnum" where
  "series_max xs = (case valid_values xs of [] \<Rightarrow> None | v # vs \<Rightarrow> Some (fold max vs v))"


text \<open>
  Division of a series entry by a scalar. Over the values of this model the only zero
  divisor is met by a zero dividend (\<open>0 / 0\<close> is \<^verbatim>\<open>NaN\<close>): see \<open>get_anomalies_from_rri\<close>.
\<close>

fun fdiv :: "fnum \<Rightarrow> fnum \<Rightarrow> fnum" where
  "fdiv (Some x) (Some y) = (if y = 0 then None else Some (x / y))"
| "fdiv _ _ = None"


text \<open>\<^verbatim>\<open>Series.bfill()\<close>: a \<^verbatim>\<open>NaN\<close> takes the next valid value; trailing \<^verbatim>\<open>NaN\<close> stay.\<close>

fun bfill :: "fnum list \<Rightarrow> fnum list" where
  "bfill [] = []"
| "bfill (Some v # xs) = Some v # bfill xs"
| "bfill (None # xs) = (case bfill xs of [] \<Rightarrow> [None] | y # ys \<Rightarrow> y # y # ys)"

section \<open>SmoothingKernels\<close>

text \<open>
  \<^verbatim>\<open>numpy.convolve(a, v, 'same')\<close>. numpy swaps the arguments when \<open>v\<close> is the longer
  one, rejects an empty argument, and returns the \<open>max(len a, len v)\<close> central entries
  of the full convolution, starting at offset \<open>(min(len a, len v) - 1) div 2\<close>. Entry
  \<open>k\<close> of the full convolution sums \<open>a[j] * v[k - j]\<close> over the \<open>j\<close> where both exist.
\<close>

definition conv_full_at :: "fnum list \<Rightarrow> fnum list \<Rightarrow> nat \<Rightarrow> fnum" where
  "conv_full_at a v k =
     fsum (map (\<lambda>j. fmul (a ! j) (v ! (k - j)))
            (filter (\<lambda>j. j \<le> k \<and> k - j < length v) [0..<length a]))"

definition convolve_same :: "fnum list \<Rightarrow> fnum list \<Rightarrow> py_error + fnum list" where
  "convolve_same a0 v0 =
     (let (a, v) = (if length v0 > length a0 then (v0, a0) else (a0, v0))
      in if a = [] then Inl (ValueError EmptyInput)
         else if v = [] then Inl (ValueError EmptyInput)
         else Inr (map (\<lambda>i. conv_full_at a v (i + (length v - 1) div 2)) [0..<length a]))"

text \<open>
  \<^verbatim>\<open>scipy.signal.windows.gaussian(M, std, sym=True)\<close> and
  \<^verbatim>\<open>scipy.signal.windows.exponential(M, tau=tau, sym=True)\<close>: a negative length is
  rejected, a length of at most one gives a window of ones, otherwise the weights
  decay around the centre \<open>(M - 1) / 2\<close>. The parameters \<open>std\<close> and \<open>tau\<close> are taken
  as non-zero.
\<close>

definition gaussian_window :: "int \<Rightarrow> real \<Rightarrow> py_error + real list" where
  "gaussian_window M std =
     (if M < 0 then Inl (ValueError BadWindowLength)
      else if M \<le> 1 then Inr (replicate (nat M) 1)
      else Inr (map (\<lambda>n. exp (- ((real n - (real_of_int M - 1) / 2) ^ 2) / (2 * std * std)))
                  [0..<nat M]))"

definition exponential_window :: "int \<Rightarrow> real \<Rightarrow> py_error + real list" where
  "exponential_window M tau =
     (if M < 0 then Inl (ValueError BadWindowLength)
      else if M \<le> 1 then Inr (replicate (nat M) 1)
      else Inr (map (\<lambda>n. exp (- \<bar>real n - (real_of_int M - 1) / 2\<bar> / tau)) [0..<nat M]))"

definition normalized_window :: "real list \<Rightarrow> fnum list" where
  "normalized_window w = map (\<lambda>x. Some (x / sum_list w)) w"

definition symmetric_gaussian_moving_average ::
  "fnum list \<Rightarrow> int \<Rightarrow> real \<Rightarrow> py_error + fnum list" where
  "symmetric_gaussian_moving_average y L0 std =
     (let L = (if L0 mod 2 = 0 then L0 + 1 else L0)
      in case gaussian_window L std of
           Inl e \<Rightarrow> Inl e
         | Inr window \<Rightarrow> convolve_same y (normalized_window window))"

definition symmetric_exponential_moving_average ::
  "fnum list \<Rightarrow> int \<Rightarrow> real \<Rightarrow> py_error + fnum list" where
  "symmetric_exponential_moving_average y L0 tau =
     (let L = (if L0 mod 2 = 0 then L0 + 1 else L0)
      in case exponential_window L tau of
           Inl e \<Rightarrow> Inl e
         | Inr window \<Rightarrow> convolve_same y (normalized_window window))"

section \<open>AnomalyDetector\<close>

text \<open>
  \<^verbatim>\<open>get_anomalies_from_rri(rri, indices, **kwargs)\<close>. The interval series arrives as a
  list or array, which needs \<open>indices\<close>, or as a Series that carries its own index, one
  label per value. The two keyword arguments are the optional thresholds.
\<close>

datatype 'i array_like = RawArray "fnum list" | PdSeries "'i list" "fnum list"

fun scan_pairs :: "nat list \<Rightarrow> fnum list \<Rightarrow> real \<Rightarrow> real \<Rightarrow> nat list \<Rightarrow> nat list" where
  "scan_pairs [] dn drop_threshold rise_threshold pac = pac"
| "scan_pairs (i # is) dn drop_threshold rise_threshold pac =
     scan_pairs is dn drop_threshold rise_threshold
       (if fle (dn ! i) drop_threshold \<and> fge (dn ! (i + 1)) rise_threshold
        then pac @ [i] else pac)"

text \<open>
  The body of the function once \<open>rri\<close> is a Series with index \<open>idx\<close> and values
  \<open>vals\<close>. The statement \<^verbatim>\<open>rri.fillna(0)\<close> computes a filled copy and drops it, so
  \<open>vals\<close> goes on unchanged. Subtracting the baseline array from the Series needs
  equal lengths.
\<close>

definition anomalies_of_series ::
  "'i list \<Rightarrow> fnum list \<Rightarrow> real option \<Rightarrow> real option \<Rightarrow> py_error + 'i list" where
  "anomalies_of_series idx vals rise_kw drop_kw =
     (let discarded = fillna 0 vals
      in case symmetric_exponential_moving_average vals 6 4 of
           Inl e \<Rightarrow> Inl e
         | Inr baseline \<Rightarrow>
             if length baseline \<noteq> length vals
             then Inl (ValueError (LengthsDiffer (length vals) (length baseline)))
             else
               let rri_f = map2 fsub vals baseline;
                   rri_f_d = fillna 0 (series_diff rri_f);
                   rri_f_d_n = map (\<lambda>x. fdiv x (series_max (map fabs rri_f_d))) rri_f_d;
                   drop_threshold = (case drop_kw of None \<Rightarrow> - 0.15 | Some d \<Rightarrow> d);
                   rise_threshold = (case rise_kw of None \<Rightarrow> 0.25 | Some r \<Rightarrow> r);
                   pac = scan_pairs [0..<length rri_f_d_n - 1] rri_f_d_n
                           drop_threshold rise_threshold []
               in Inr (map (\<lambda>i. idx ! i) pac))"

definition get_anomalies_from_rri ::
  "'i array_like \<Rightarrow> 'i list option \<Rightarrow> real option \<Rightarrow> real option \<Rightarrow> py_error + 'i list" where
  "get_anomalies_from_rri rri indices rise_kw drop_kw =
     (case rri of
        RawArray vals \<Rightarrow>
          (case indices of
             None \<Rightarrow> Inl (ValueError IndicesMissing)
           | Some idx \<Rightarrow>
               if length idx \<noteq> length vals
               then Inl (ValueError (LengthsDiffer (length vals) (length idx)))
               else anomalies_of_series idx vals rise_kw drop_kw)
      | PdSeries idx vals \<Rightarrow> anomalies_of_series idx vals rise_kw drop_kw)"

text \<open>
  The claim about the detector, in the spec's words: the first difference of the
  detrended series \<open>f\<close> (zero where pandas has no difference), divided by the largest
  absolute first difference, and the test on a consecutive pair.
\<close>

definition spec_first_difference :: "fnum list \<Rightarrow> nat \<Rightarrow> real" where
  "spec_first_difference f i =
     (case (if i = 0 then None else fsub (f ! i) (f ! (i - 1))) of None \<Rightarrow> 0 | Some x \<Rightarrow> x)"

definition spec_normalized_difference :: "fnum list \<Rightarrow> nat \<Rightarrow> fnum" where
  "spec_normalized_difference f i =
     (let m = Max ((\<lambda>j. \<bar>spec_first_difference f j\<bar>) ` {..<length f})
      in if m = 0 then None else Some (spec_first_difference f i / m))"

definition spec_flagged :: "fnum list \<Rightarrow> real \<Rightarrow> real \<Rightarrow> nat \<Rightarrow> bool" where
  "spec_flagged f drop_threshold rise_threshold i =
     (fle (spec_normalized_difference f i) drop_threshold \<and>
      fge (spec_normalized_difference f (i + 1)) rise_threshold)"

text \<open>
  The weights of the window of the detector (\<open>L = 6\<close> forced to \<open>7\<close>, \<open>tau = 4\<close>) are
  the powers \<open>0..3\<close> of \<open>exp (-1/4)\<close>; their sum normalises the window.
\<close>

definition decay4 :: real where
  "decay4 = exp (- 1 / 4)"

definition window_sum4 :: real where
  "window_sum4 = decay4 ^ 3 + decay4 ^ 2 + decay4 + 1 + decay4 + decay4 ^ 2 + decay4 ^ 3"

text \<open>Two interval series of seven beats: one with a missing value, and the same filled with zero.\<close>

definition rri_with_nan :: "fnum list" where
  "rri_with_nan = [Some 0, Some 0, Some 0, None, Some (- 1), Some 0, Some 0]"

definition rri_filled :: "fnum list" where
  "rri_filled = [Some 0, Some 0, Some 0, Some 0, Some (- 1), Some 0, Some 0]"

definition rri_filled_baseline :: "fnum list" where
  "rri_filled_baseline =
     [Some 0, Some (- (decay4 ^ 3 / window_sum4)), Some (- (decay4 ^ 2 / window_sum4)),
      Some (- (decay4 / window_sum4)), Some (- (1 / window_sum4)),
      Some (- (decay4 / window_sum4)), Some (- (decay4 ^ 2 / window_sum4))]"

section \<open>PulseMetrics\<close>










text \<open>The series \<^verbatim>\<open>diffs\<close> of the code, for timestamps \<open>t\<close> without missing values.\<close>

definition diffs_of :: "real list \<Rightarrow> fnum list" where
  "diffs_of t = map (\<lambda>x. fmul x (Some 1000)) (series_diff (series_diff (map Some t)))"

section \<open>SpectralFilter: the transform-domain filter\<close>

text \<open>
  The frequency axis and the band bounds are floats that may be infinite or \<^verbatim>\<open>NaN\<close>:
  the sampling frequency is \<open>1 / mean(diff(t))\<close>, which numpy evaluates to \<^verbatim>\<open>inf\<close> for
  a zero mean spacing and to \<^verbatim>\<open>NaN\<close> when there is no spacing at all, and the claims
  use an infinite upper bound. Finite values are exact reals; the sign of a zero is
  not modelled.
\<close>

datatype flt = Fin real | PInf | NInf | NaN

fun flt_reciprocal :: "flt \<Rightarrow> flt" where
  "flt_reciprocal (Fin x) = (if x = 0 then PInf else Fin (1 / x))"
| "flt_reciprocal PInf = Fin 0"
| "flt_reciprocal NInf = Fin 0"
| "flt_reciprocal NaN = NaN"

fun flt_scale :: "real \<Rightarrow> flt \<Rightarrow> flt" where
  "flt_scale r (Fin x) = Fin (r * x)"
| "flt_scale r PInf = (if r = 0 then NaN else if 0 < r then PInf else NInf)"
| "flt_scale r NInf = (if r = 0 then NaN else if 0 < r then NInf else PInf)"
| "flt_scale r NaN = NaN"

fun flt_abs :: "flt \<Rightarrow> flt" where
  "flt_abs (Fin x) = Fin \<bar>x\<bar>"
| "flt_abs PInf = PInf"
| "flt_abs NInf = PInf"
| "flt_abs NaN = NaN"

fun flt_less :: "flt \<Rightarrow> flt \<Rightarrow> bool" where
  "flt_less (Fin x) (Fin y) = (x < y)"
| "flt_less (Fin x) PInf = True"
| "flt_less NInf (Fin y) = True"
| "flt_less NInf PInf = True"
| "flt_less _ _ = False"

text \<open>\<^verbatim>\<open>numpy.diff\<close> and \<^verbatim>\<open>numpy.mean\<close> on an array of finite values.\<close>

definition np_diff :: "real list \<Rightarrow> real list" where
  "np_diff xs = map2 (\<lambda>b a. b - a) (tl xs) xs"

definition np_mean :: "real list \<Rightarrow> flt" where
  "np_mean xs = (if xs = [] then NaN else Fin (sum_list xs / real (length xs)))"

text \<open>
  \<^verbatim>\<open>numpy.fft.fftfreq(n)\<close> for \<open>n \<ge> 1\<close>: the bins \<open>0 .. (n-1) div 2\<close> followed by
  \<open>-(n div 2) .. -1\<close>, each divided by \<open>n\<close>.
\<close>

definition fftfreq :: "nat \<Rightarrow> real list" where
  "fftfreq n =
     map (\<lambda>k. if k \<le> (n - 1) div 2 then real k / real n else (real k - real n) / real n) [0..<n]"

text \<open>
  \<^verbatim>\<open>numpy.fft.fft(y, N)\<close> with \<open>N = len(y)\<close> and \<^verbatim>\<open>numpy.fft.ifft\<close>, over exact complex
  numbers.
\<close>

definition fft :: "real list \<Rightarrow> complex list" where
  "fft y =
     (let n = length y
      in map (\<lambda>k. sum_list (map (\<lambda>j. complex_of_real (y ! j) *
                                     cis (- (2 * pi * real j * real k / real n))) [0..<n]))
           [0..<n])"

definition ifft :: "complex list \<Rightarrow> complex list" where
  "ifft X =
     (let n = length X
      in map (\<lambda>m. sum_list (map (\<lambda>k. X ! k * cis (2 * pi * real k * real m / real n)) [0..<n])
                   / of_nat n)
           [0..<n])"

text \<open>
  \<^verbatim>\<open>frequency_filtering_fft(y, t, upper, lower, reconstruction_mode)\<close>, in the order of
  the source: the time axis and its shape check, the de-originated time axis
  (\<^verbatim>\<open>numpy.min\<close> of an empty array raises), the transform, the frequency axis, the
  reconstruction mode, the mask of the band (comparing the frequencies with \<^verbatim>\<open>None\<close>,
  when both bounds are absent, raises), and the inverse transform.
\<close>

definition time_axis :: "real list \<Rightarrow> real list option \<Rightarrow> py_error + real list" where
  "time_axis y t0 =
     (case t0 of
        None \<Rightarrow> Inr (map real [0..<length y])
      | Some ts \<Rightarrow>
          if length y \<noteq> length ts
          then Inl (ValueError (DimensionMismatch (length y) (length ts)))
          else Inr ts)"

definition frequency_axis :: "real list \<Rightarrow> nat \<Rightarrow> flt list" where
  "frequency_axis t_filtered N =
     map (\<lambda>f. flt_scale f (flt_reciprocal (np_mean (np_diff t_filtered)))) (fftfreq N)"

definition band_mask :: "flt option \<Rightarrow> flt option \<Rightarrow> flt list \<Rightarrow> py_error + bool list" where
  "band_mask upper lower freq =
     (case lower of
        None \<Rightarrow>
          (case upper of
             None \<Rightarrow> Inl (TypeError NoneComparison)
           | Some u \<Rightarrow> Inr (map (\<lambda>f. flt_less f u) freq))
      | Some l \<Rightarrow>
          (case upper of
             None \<Rightarrow> Inr (map (\<lambda>f. flt_less l f) freq)
           | Some u \<Rightarrow> Inr (map (\<lambda>f. flt_less f u \<and> flt_less l f) freq)))"

definition frequency_filtering_fft ::
  "real list \<Rightarrow> real list option \<Rightarrow> flt option \<Rightarrow> flt option \<Rightarrow> string \<Rightarrow> py_error + real list" where
  "frequency_filtering_fft y t0 upper lower reconstruction_mode =
     (case time_axis y t0 of
        Inl e \<Rightarrow> Inl e
      | Inr t \<Rightarrow>
          if t = [] then Inl (ValueError ZeroSizeReduction)
          else
            let t_filtered = map (\<lambda>x. x - Min (set t)) t;
                N = length y;
                X = fft y;
                freq0 = frequency_axis t_filtered N
            in case (if reconstruction_mode = ''all'' then Inr (map flt_abs freq0)
                     else if \<not> reconstruction_mode = ''positive''
                     then Inl (ValueError BadReconstructionMode)
                     else Inr freq0) of
                 Inl e \<Rightarrow> Inl e
               | Inr freq \<Rightarrow>
                   (case band_mask upper lower freq of
                      Inl e \<Rightarrow> Inl e
                    | Inr filter_mask \<Rightarrow>
                        let X_filtered = map2 (\<lambda>x b. if b then x else 0) X filter_mask;
                            y_filtered = map Re (ifft X_filtered)
                        in Inr y_filtered))"

section \<open>HeartbeatSegmenter\<close>

text \<open>
  The data handler holds the table read from the CSV file and the list of label names.
  A table is a list of named columns of equal length over the row index \<open>0..n-1\<close>
  (\<^verbatim>\<open>pandas.read_csv\<close> without an index column); a cell is missing, a number or a text.
\<close>

datatype cell = Missing | Number real | Text string

type_synonym table = "(string \<times> cell list) list"

record data_handler =
  plot_data :: "table option"
  label_list :: "string list"

definition nrows :: "table \<Rightarrow> nat" where
  "nrows tbl = (case tbl of [] \<Rightarrow> 0 | (name, vals) # rest \<Rightarrow> length vals)"

definition cell_at :: "table \<Rightarrow> string \<Rightarrow> nat \<Rightarrow> cell" where
  "cell_at tbl name r = (case map_of tbl name of None \<Rightarrow> Missing | Some vals \<Rightarrow> vals ! r)"

text \<open>The Python test \<^verbatim>\<open>pat in s\<close> on strings.\<close>

fun contains :: "string \<Rightarrow> string \<Rightarrow> bool" where
  "contains pat [] = (pat = [])"
| "contains pat (c # cs) = (prefix pat (c # cs) \<or> contains pat cs)"

text \<open>
  \<^verbatim>\<open>get_label_data(label)\<close> with a list of labels and \<^verbatim>\<open>inverse=False\<close>: each name gets
  the prefix \<^verbatim>\<open>Label: \<close> unless it holds it already, a name that is not a column raises,
  and the result is made of the rows in which one of the columns equals \<open>1\<close>. The
  result is represented by its row labels, in increasing order.
\<close>

fun label_columns :: "table \<Rightarrow> string list \<Rightarrow> py_error + string list" where
  "label_columns tbl [] = Inr []"
| "label_columns tbl (l # ls) =
     (let name = (if \<not> contains ''Label: '' l then ''Label: '' @ l else l)
      in if name \<notin> set (map fst tbl) then Inl (ValueError (LabelNotFound name))
         else (case label_columns tbl ls of Inl e \<Rightarrow> Inl e | Inr names \<Rightarrow> Inr (name # names)))"

definition get_label_data :: "table \<Rightarrow> string list \<Rightarrow> py_error + nat list" where
  "get_label_data tbl label =
     (case label_columns tbl label of
        Inl e \<Rightarrow> Inl e
      | Inr names \<Rightarrow>
          Inr (filter (\<lambda>r. list_ex (\<lambda>name. cell_at tbl name r = Number 1) names) [0..<nrows tbl]))"

text \<open>
  The segmenting loop of \<^verbatim>\<open>get_heartbeats\<close>, on the row labels of the heartbeats and of
  the breaks. \<^verbatim>\<open>.loc[a:b]\<close> on the increasing index keeps the labels between \<open>a\<close> and
  \<open>b\<close>, both included. The loop has no bound of its own: \<open>None\<close> is a run that never
  returns.
\<close>

partial_function (option) segmenting_loop ::
  "nat list \<Rightarrow> nat list \<Rightarrow> nat \<Rightarrow> nat \<Rightarrow> nat list list \<Rightarrow> nat list list option" where
  "segmenting_loop heartbeats breaks step last_break heartbeat_segments =
     (let segment = (if step \<ge> length breaks
                     then filter (\<lambda>i. last_break \<le> i) heartbeats
                     else filter (\<lambda>i. last_break \<le> i \<and> i \<le> breaks ! step) heartbeats)
      in if segment = []
         then segmenting_loop heartbeats breaks (step + 1) last_break heartbeat_segments
         else
           let heartbeat_segments' = heartbeat_segments @ [segment];
               last_break' = last segment + 1;
               remainder = filter (\<lambda>i. i > last_break') heartbeats
           in if remainder = [] then Some heartbeat_segments'
              else segmenting_loop heartbeats breaks (step + 1) (hd remainder) heartbeat_segments')"

text \<open>
  \<^verbatim>\<open>DataHandler.get_heartbeats\<close>. The names of the heartbeat classes and of the segment
  denominators are read from a JSON file at import time; they are parameters here, in
  the order of the file.
\<close>

definition get_heartbeats ::
  "string list \<Rightarrow> string list \<Rightarrow> data_handler \<Rightarrow> (py_error + nat list list) option" where
  "get_heartbeats heartbeat_classes segment_denominators self =
     (case plot_data self of
        None \<Rightarrow> Some (Inr [])
      | Some tbl \<Rightarrow>
          if label_list self = [] then Some (Inr [])
          else
            let present_labels = filter (\<lambda>key. key \<in> set (label_list self)) heartbeat_classes
            in case get_label_data tbl present_labels of
                 Inl e \<Rightarrow> Some (Inl e)
               | Inr heartbeats \<Rightarrow>
                   let included_markers =
                         filter (\<lambda>marker. marker \<in> set (label_list self)) segment_denominators
                   in if length included_markers = 0 then Some (Inr [heartbeats])
                      else (case get_label_data tbl included_markers of
                              Inl e \<Rightarrow> Some (Inl e)
                            | Inr breaks \<Rightarrow>
                                map_option Inr (segmenting_loop heartbeats breaks 0 0 [])))"

text \<open>
  Three recordings; in each the label list of the handler holds the labels of the
  label columns. In the first, rows \<open>1, 2, 3, 10, 11, 12\<close> carry the heartbeat label
  \<^verbatim>\<open>N\<close> and row \<open>5\<close> carries the break marker \<^verbatim>\<open>~\<close>. The second has the same
  heartbeats and no marker label. In the third both labels are declared, no row carries
  the heartbeat label and row \<open>1\<close> carries the marker.
\<close>

definition example_table :: table where
  "example_table =
     [(''Label: N'', [Missing, Number 1, Number 1, Number 1, Missing, Missing, Missing, Missing,
                      Missing, Missing, Number 1, Number 1, Number 1]),
      (''Label: ~'', [Missing, Missing, Missing, Missing, Missing, Number 1, Missing, Missing,
                      Missing, Missing, Missing, Missing, Missing])]"

definition unmarked_table :: table where
  "unmarked_table =
     [(''Label: N'', [Missing, Number 1, Number 1, Number 1, Missing, Missing, Missing, Missing,
                      Missing, Missing, Number 1, Number 1, Number 1])]"

definition unlabelled_table :: table where
  "unlabelled_table =
     [(''Label: N'', [Missing, Missing, Missing]), (''Label: ~'', [Missing, Number 1, Missing])]"

section \<open>Verification\<close>

subsection \<open>Slices and the first maximum\<close>


lemma slice_bound_le: "slice_bound n a \<le> n"
  by (auto simp: slice_bound_def)

lemma slice_bound_mono: "0 \<le> a \<Longrightarrow> a \<le> b \<Longrightarrow> slice_bound n a \<le> slice_bound n b"
  by (auto simp: slice_bound_def)

lemma argmax_first_lt: "xs \<noteq> [] \<Longrightarrow> argmax_first xs < length xs"
  by (induction xs rule: argmax_first.induct) (auto simp: Let_def)

lemma argmax_first_ge: "j < length xs \<Longrightarrow> xs ! j \<le> xs ! argmax_first xs"
proof (induction xs arbitrary: j rule: argmax_first.induct)
  case 1 then show ?case by simp
next
  case (2 x) then show ?case by simp
next
  case (3 x y ys)
  show ?case
  proof (cases j)
    case 0
    then show ?thesis by (auto simp: Let_def)
  next
    case (Suc k)
    with 3 have "(y # ys) ! k \<le> (y # ys) ! argmax_first (y # ys)" by simp
    with Suc show ?thesis by (auto simp: Let_def)
  qed
qed

lemma argmax_first_strict: "j < argmax_first xs \<Longrightarrow> xs ! j < xs ! argmax_first xs"
proof (induction xs arbitrary: j rule: argmax_first.induct)
  case 1 then show ?case by simp
next
  case (2 x) then show ?case by simp
next
  case (3 x y ys)
  show ?case
  proof (cases j)
    case 0
    with 3(2) show ?thesis by (auto simp: Let_def split: if_splits)
  next
    case (Suc k)
    with 3(2) have "k < argmax_first (y # ys)" by (auto simp: Let_def split: if_splits)
    with 3(1) have "(y # ys) ! k < (y # ys) ! argmax_first (y # ys)" by simp
    with Suc 3(2) show ?thesis by (auto simp: Let_def split: if_splits)
  qed
qed

text \<open>
  What \<open>argmax_slice\<close> returns: a position inside the clipped window, holding a value
  that no position of the window exceeds and that no earlier position of the window
  reaches.
\<close>

lemma argmax_slice_props:
  assumes "argmax_slice raw a b = Inr p"
  shows "slice_bound (length raw) a \<le> p" "p < slice_bound (length raw) b" "p < length raw"
    "\<And>j. slice_bound (length raw) a \<le> j \<Longrightarrow> j < slice_bound (length raw) b \<Longrightarrow> raw ! j \<le> raw ! p"
    "\<And>j. slice_bound (length raw) a \<le> j \<Longrightarrow> j < p \<Longrightarrow> raw ! j < raw ! p"
proof -
  let ?n = "length raw"
  let ?a = "slice_bound ?n a"
  let ?b = "slice_bound ?n b"
  let ?s = "py_slice raw a b"
  from assms have ne: "?s \<noteq> []" and p: "p = ?a + argmax_first ?s"
    by (auto simp: argmax_slice_def split: if_splits)
  have bn: "?b \<le> ?n" by (rule slice_bound_le)
  have len: "length ?s = ?b - ?a" using bn by (simp add: py_slice_def)
  have nth: "\<And>k. k < ?b - ?a \<Longrightarrow> ?s ! k = raw ! (?a + k)"
    using bn by (simp add: py_slice_def)
  from ne have lt: "argmax_first ?s < ?b - ?a" using argmax_first_lt[of ?s] len by simp
  show "?a \<le> p" using p by simp
  show pb: "p < ?b" using p lt by simp
  show "p < ?n" using pb bn by simp
  show "\<And>j. ?a \<le> j \<Longrightarrow> j < ?b \<Longrightarrow> raw ! j \<le> raw ! p"
  proof -
    fix j assume j: "?a \<le> j" "j < ?b"
    then have "j - ?a < length ?s" using len by simp
    then have "?s ! (j - ?a) \<le> ?s ! argmax_first ?s" by (rule argmax_first_ge)
    then show "raw ! j \<le> raw ! p" using nth[of "j - ?a"] nth[OF lt] j p by simp
  qed
  show "\<And>j. ?a \<le> j \<Longrightarrow> j < p \<Longrightarrow> raw ! j < raw ! p"
  proof -
    fix j assume j: "?a \<le> j" "j < p"
    then have jl: "j - ?a < argmax_first ?s" using p by simp
    then have "?s ! (j - ?a) < ?s ! argmax_first ?s" by (rule argmax_first_strict)
    moreover have "j - ?a < ?b - ?a" using jl lt by simp
    ultimately show "raw ! j < raw ! p" using nth[of "j - ?a"] nth[OF lt] j p by simp
  qed
qed

text \<open>Moving both ends of the window to the right never moves the first maximum left.\<close>

lemma argmax_slice_mono:
  assumes p: "argmax_slice raw a b = Inr p" and q: "argmax_slice raw a' b' = Inr q"
    and a: "slice_bound (length raw) a \<le> slice_bound (length raw) a'"
    and b: "slice_bound (length raw) b \<le> slice_bound (length raw) b'"
  shows "p \<le> q"
proof (rule ccontr)
  assume "\<not> p \<le> q"
  then have qp: "q < p" by simp
  note P = argmax_slice_props[OF p]
  note Q = argmax_slice_props[OF q]
  have "raw ! q < raw ! p" using P(5)[of q] Q(1) a qp by simp
  moreover have "raw ! p \<le> raw ! q" using Q(4)[of p] Q(1) qp P(2) b by simp
  ultimately show False by simp
qed

text \<open>
  \<open>idxmax_slice\<close> returns the label of a position of the signal; under an index that
  does not decrease, the labels follow the positions.
\<close>

lemma idxmax_slice_label:
  assumes "idxmax_slice raw a b = Inr l"
  shows "\<exists>p. argmax_slice (signal_values raw) a b = Inr p \<and> p < length (signal_values raw) \<and>
             l = signal_index raw ! p"
proof -
  from assms obtain p where p: "argmax_slice (signal_values raw) a b = Inr p"
    and l: "l = signal_index raw ! p"
    by (auto simp: idxmax_slice_def split: sum.splits)
  from p have "p < length (signal_values raw)" by (rule argmax_slice_props(3))
  with p l show ?thesis by blast
qed

lemma idxmax_slice_mono:
  assumes p: "idxmax_slice raw a b = Inr p" and q: "idxmax_slice raw a' b' = Inr q"
    and a: "slice_bound (length (signal_values raw)) a \<le> slice_bound (length (signal_values raw)) a'"
    and b: "slice_bound (length (signal_values raw)) b \<le> slice_bound (length (signal_values raw)) b'"
    and s: "sorted (signal_index raw)"
    and l: "length (signal_index raw) = length (signal_values raw)"
  shows "p \<le> q"
proof -
  from idxmax_slice_label[OF p] obtain i where
    i: "argmax_slice (signal_values raw) a b = Inr i" "p = signal_index raw ! i" by blast
  from idxmax_slice_label[OF q] obtain j where
    j: "argmax_slice (signal_values raw) a' b' = Inr j" "j < length (signal_values raw)"
       "q = signal_index raw ! j" by blast
  have "i \<le> j" using argmax_slice_mono[OF i(1) j(1) a b] .
  then show ?thesis using s l i(2) j(2,3) by (simp add: sorted_nth_mono)
qed

lemma signal_index_list_or_array:
  "p < length vals \<Longrightarrow> signal_index (ListOrArray vals) ! p = int p"
  by simp

subsection \<open>Seed refinement\<close>


text \<open>Every index returned is the index label of a position of the raw signal.\<close>

lemma peak_correction_loop_labels:
  "peak_correction_loop num seeds raw w acc = Inr out
   \<Longrightarrow> \<forall>l\<in>set acc. \<exists>p<length (signal_values raw). l = signal_index raw ! p
   \<Longrightarrow> \<forall>l\<in>set out. \<exists>p<length (signal_values raw). l = signal_index raw ! p"
proof (induction num seeds raw w acc rule: peak_correction_loop.induct)
  case (1 num raw window new_peaks)
  then show ?case by simp
next
  case (2 num seeds raw window new_peaks)
  then show ?case by simp
next
  case (3 num s seeds raw window new_peaks)
  show ?case
  proof (cases "py_slice (signal_values raw) (s - window) (s + window) = []")
    case True
    with 3 show ?thesis by simp
  next
    case ne: False
    show ?thesis
    proof (cases "s < window - 1")
      case True
      with ne 3(4) obtain l where l: "idxmax_slice raw 0 (window - 1) = Inr l"
        and r: "peak_correction_loop (Suc num) seeds raw window (new_peaks @ [l]) = Inr out"
        by (auto split: sum.splits)
      from idxmax_slice_label[OF l] have "\<exists>p<length (signal_values raw). l = signal_index raw ! p"
        by blast
      with 3(5) have "\<forall>k\<in>set (new_peaks @ [l]). \<exists>p<length (signal_values raw). k = signal_index raw ! p"
        by simp
      with 3(2)[OF ne True l r] show ?thesis by simp
    next
      case False
      with ne 3(4) obtain l where l: "idxmax_slice raw (s - window) (s + window) = Inr l"
        and r: "peak_correction_loop (Suc num) seeds raw window (new_peaks @ [l]) = Inr out"
        by (auto split: sum.splits)
      from idxmax_slice_label[OF l] have "\<exists>p<length (signal_values raw). l = signal_index raw ! p"
        by blast
      with 3(5) have "\<forall>k\<in>set (new_peaks @ [l]). \<exists>p<length (signal_values raw). k = signal_index raw ! p"
        by simp
      with 3(3)[OF ne False l r] show ?thesis by simp
    qed
  qed
qed

lemma peak_correction_labels:
  assumes "peak_correction seeds raw w = Inr out" and "l \<in> set out"
  shows "\<exists>p<length (signal_values raw). l = signal_index raw ! p"
  using peak_correction_loop_labels[of 0 seeds raw w "[]" out] assms
  unfolding peak_correction_def by simp

lemma peak_correction_loop_sorted:
  assumes "peak_correction_loop num (map IntSeed ss) raw w acc = Inr out"
    and "sorted ss" and "\<forall>s\<in>set ss. w \<le> s"
    and "sorted acc"
    and "0 \<le> w"
    and "\<forall>p\<in>set acc. \<forall>s\<in>set ss. \<forall>q. idxmax_slice raw (s - w) (s + w) = Inr q \<longrightarrow> p \<le> q"
    and "sorted (signal_index raw)"
    and "length (signal_index raw) = length (signal_values raw)"
  shows "sorted out"
  using assms
proof (induction ss arbitrary: num acc)
  case Nil
  then show ?case by simp
next
  case (Cons s ss)
  have ss: "sorted ss" "\<forall>t\<in>set ss. w \<le> t" "\<forall>t\<in>set ss. s \<le> t" using Cons.prems by auto
  have nb: "\<not> s < w - 1" using Cons.prems(3) by simp
  show ?case
  proof (cases "py_slice (signal_values raw) (s - w) (s + w) = []")
    case True
    with Cons.prems(1) have "peak_correction_loop (Suc num) (map IntSeed ss) raw w acc = Inr out"
      by simp
    moreover have "\<forall>p\<in>set acc. \<forall>s\<in>set ss. \<forall>q. idxmax_slice raw (s - w) (s + w) = Inr q \<longrightarrow> p \<le> q"
      using Cons.prems(6) by simp
    ultimately show ?thesis using Cons.IH ss Cons.prems(4,5,7,8) by blast
  next
    case False
    with nb Cons.prems(1) obtain p where p: "idxmax_slice raw (s - w) (s + w) = Inr p"
      and r: "peak_correction_loop (Suc num) (map IntSeed ss) raw w (acc @ [p]) = Inr out"
      by (auto split: sum.splits)
    have "\<forall>x\<in>set acc. x \<le> p" using Cons.prems(6) p by simp
    with Cons.prems(4) have sa: "sorted (acc @ [p])" by (simp add: sorted_append)
    have inv: "\<forall>x\<in>set (acc @ [p]). \<forall>t\<in>set ss. \<forall>q. idxmax_slice raw (t - w) (t + w) = Inr q \<longrightarrow> x \<le> q"
    proof (intro ballI allI impI)
      fix x t q
      assume x: "x \<in> set (acc @ [p])" and t: "t \<in> set ss"
        and q: "idxmax_slice raw (t - w) (t + w) = Inr q"
      show "x \<le> q"
      proof (cases "x \<in> set acc")
        case True
        with Cons.prems(6) t q show ?thesis by simp
      next
        case False
        with x have "x = p" by simp
        moreover have "s \<le> t" using ss(3) t by simp
        then have "p \<le> q"
          using Cons.prems(3,5) slice_bound_mono[of "s - w" "t - w"]
            slice_bound_mono[of "s + w" "t + w"]
          by (intro idxmax_slice_mono[OF p q _ _ Cons.prems(7,8)]) simp_all
        ultimately show ?thesis by simp
      qed
    qed
    from Cons.IH[OF r ss(1) ss(2) sa Cons.prems(5) inv Cons.prems(7,8)] show ?thesis .
  qed
qed

lemma skip_plateau_ge: "i_ahead \<le> skip_plateau x i i_ahead"
proof (induction x i i_ahead rule: skip_plateau.induct)
  case (1 x i i_ahead)
  show ?case
  proof (cases "i_ahead + 1 < length x \<and> x ! i_ahead = x ! i")
    case True
    with 1 have "i_ahead + 1 \<le> skip_plateau x i (i_ahead + 1)" by simp
    with True show ?thesis by (subst skip_plateau.simps) simp
  next
    case False
    then show ?thesis by (subst skip_plateau.simps) auto
  qed
qed

lemma skip_plateau_lt: "i_ahead < length x \<Longrightarrow> skip_plateau x i i_ahead < length x"
proof (induction x i i_ahead rule: skip_plateau.induct)
  case (1 x i i_ahead)
  show ?case
  proof (cases "i_ahead + 1 < length x \<and> x ! i_ahead = x ! i")
    case True
    with 1 have "skip_plateau x i (i_ahead + 1) < length x" by simp
    with True show ?thesis by (subst skip_plateau.simps) simp
  next
    case False
    with 1(2) show ?thesis by (subst skip_plateau.simps) auto
  qed
qed

lemma local_maxima_from_bounds:
  "p \<in> set (local_maxima_from x i) \<Longrightarrow> i \<le> p \<and> p + 1 < length x"
proof (induction x i arbitrary: p rule: local_maxima_from.induct)
  case (1 x i)
  show ?case
  proof (cases "i + 1 < length x")
    case False
    with 1(4) show ?thesis by (simp add: local_maxima_from.simps[of x i])
  next
    case in_range: True
    show ?thesis
    proof (cases "x ! (i - 1) < x ! i")
      case False
      with in_range 1(4) have "p \<in> set (local_maxima_from x (i + 1))"
        by (simp add: local_maxima_from.simps[of x i])
      from 1(3)[OF in_range False this] show ?thesis by simp
    next
      case rising: True
      define a where "a = skip_plateau x i (i + 1)"
      have a1: "i + 1 \<le> a" unfolding a_def by (rule skip_plateau_ge)
      have a2: "a < length x" unfolding a_def using in_range by (rule skip_plateau_lt)
      show ?thesis
      proof (cases "x ! a < x ! i")
        case False
        with in_range rising 1(4) have "p \<in> set (local_maxima_from x (i + 1))"
          by (simp add: local_maxima_from.simps[of x i] a_def Let_def)
        from 1(2)[OF in_range rising a_def False this] show ?thesis by simp
      next
        case True
        with in_range rising 1(4)
        have "p = (i + (a - 1)) div 2 \<or> p \<in> set (local_maxima_from x (a + 1))"
          by (simp add: local_maxima_from.simps[of x i] a_def Let_def)
        then show ?thesis
        proof
          assume "p = (i + (a - 1)) div 2"
          then show ?thesis using a1 a2 by arith
        next
          assume "p \<in> set (local_maxima_from x (a + 1))"
          from 1(1)[OF in_range rising a_def True this] show ?thesis using a1 by simp
        qed
      qed
    qed
  qed
qed

lemma local_maxima_from_sorted: "sorted_wrt (<) (local_maxima_from x i)"
proof (induction x i rule: local_maxima_from.induct)
  case (1 x i)
  show ?case
  proof (cases "i + 1 < length x")
    case False
    then show ?thesis by (simp add: local_maxima_from.simps[of x i])
  next
    case in_range: True
    show ?thesis
    proof (cases "x ! (i - 1) < x ! i")
      case False
      with in_range 1(3) show ?thesis by (simp add: local_maxima_from.simps[of x i])
    next
      case rising: True
      define a where "a = skip_plateau x i (i + 1)"
      have a1: "i + 1 \<le> a" unfolding a_def by (rule skip_plateau_ge)
      show ?thesis
      proof (cases "x ! a < x ! i")
        case False
        with in_range rising 1(2)[OF in_range rising a_def False] show ?thesis
          by (simp add: local_maxima_from.simps[of x i] a_def Let_def)
      next
        case True
        have "\<forall>q\<in>set (local_maxima_from x (a + 1)). (i + (a - 1)) div 2 < q"
        proof
          fix q assume "q \<in> set (local_maxima_from x (a + 1))"
          then have "a + 1 \<le> q" using local_maxima_from_bounds[of q x "a + 1"] by simp
          then show "(i + (a - 1)) div 2 < q" using a1 by arith
        qed
        with in_range rising True 1(1)[OF in_range rising a_def True] show ?thesis
          by (simp add: local_maxima_from.simps[of x i] a_def Let_def)
      qed
    qed
  qed
qed

lemma get_peaks_locations:
  assumes "get_peaks quantile kwargs_keep y quant output = Inr r"
  shows "sorted_wrt (<) (peak_locations r)" "\<forall>p\<in>set (peak_locations r). p < length y"
proof -
  from assms obtain height where
    r: "peak_locations r = fst (find_peaks kwargs_keep y height)"
    by (auto simp: get_peaks_def Let_def split: sum.splits if_splits)
  have f: "fst (find_peaks kwargs_keep y height)
      = filter (\<lambda>p. (case height of None \<Rightarrow> False | Some h \<Rightarrow> h \<le> y ! p) \<and> kwargs_keep p)
          (local_maxima_from y 1)"
    by (simp add: find_peaks_def Let_def local_maxima_1d_def)
  show "sorted_wrt (<) (peak_locations r)"
    unfolding r f by (intro sorted_wrt_filter local_maxima_from_sorted)
  show "\<forall>p\<in>set (peak_locations r). p < length y"
    unfolding r f using local_maxima_from_bounds[of _ y 1] by fastforce
qed



text \<open>
  C10, as amended. For every seed list and every window:
  \<^item> on a raw signal given as a list or an array of length \<open>N\<close>, every index that
    \<open>peak_correction\<close> returns lies in \<open>[0, N)\<close>;
  \<^item> on a raw signal given as a Series, every index returned is a label of the index of
    that Series (a position in \<open>[0, N)\<close> only under the default index);
  \<^item> when the seeds are strictly increasing, the window is not negative, no seed is
    smaller than the window (so that no search window wraps around the start of the
    signal) and the index of the raw signal does not decrease (as the default index),
    the returned list is non-decreasing. It need not be strictly increasing.

  The indices that \<open>get_peaks\<close> returns are positions of the signal: they are strictly
  increasing and lie in \<open>[0, N)\<close>.
\<close>

theorem peak_correction_in_range_and_sorted:
  "(peak_correction seeds (ListOrArray vals) w = Inr out \<longrightarrow>
      (\<forall>p\<in>set out. 0 \<le> p \<and> p < int (length vals))) \<and>
   (peak_correction seeds' (Series idx vals') w' = Inr labels \<and> length idx = length vals' \<longrightarrow>
      (\<forall>l\<in>set labels. l \<in> set idx)) \<and>
   (peak_correction (map IntSeed ss) raw w = Inr out' \<and> sorted_wrt (<) ss \<and> 0 \<le> w \<and>
      (\<forall>s\<in>set ss. w \<le> s) \<and> sorted (signal_index raw) \<and>
      length (signal_index raw) = length (signal_values raw) \<longrightarrow> sorted out') \<and>
   (get_peaks quantile kwargs_keep y quant output = Inr r \<longrightarrow>
      sorted_wrt (<) (peak_locations r) \<and> (\<forall>p\<in>set (peak_locations r). p < length y))"
proof (intro conjI impI)
  assume h: "peak_correction seeds (ListOrArray vals) w = Inr out"
  show "\<forall>p\<in>set out. 0 \<le> p \<and> p < int (length vals)"
  proof
    fix p assume "p \<in> set out"
    from peak_correction_labels[OF h this] obtain k where
      "k < length vals" "p = signal_index (ListOrArray vals) ! k" by auto
    then show "0 \<le> p \<and> p < int (length vals)" by simp
  qed
next
  assume h: "peak_correction seeds' (Series idx vals') w' = Inr labels \<and> length idx = length vals'"
  show "\<forall>l\<in>set labels. l \<in> set idx"
  proof
    fix l assume "l \<in> set labels"
    with h peak_correction_labels[of seeds' "Series idx vals'" w' labels l] obtain k where
      "k < length vals'" "l = idx ! k" by auto
    with h show "l \<in> set idx" by simp
  qed
next
  assume h: "peak_correction (map IntSeed ss) raw w = Inr out' \<and> sorted_wrt (<) ss \<and> 0 \<le> w \<and>
      (\<forall>s\<in>set ss. w \<le> s) \<and> sorted (signal_index raw) \<and>
      length (signal_index raw) = length (signal_values raw)"
  then have "sorted ss" by (simp add: strict_sorted_imp_sorted)
  with h show "sorted out'"
    unfolding peak_correction_def by (elim conjE) (erule peak_correction_loop_sorted, simp_all)
next
  assume g: "get_peaks quantile kwargs_keep y quant output = Inr r"
  show "sorted_wrt (<) (peak_locations r)" by (rule get_peaks_locations(1)[OF g])
  show "\<forall>p\<in>set (peak_locations r). p < length y" by (rule get_peaks_locations(2)[OF g])
qed

theorem peak_correction_in_range_and_sorted_witness:
  "peak_correction [IntSeed 6, IntSeed 7]
     (ListOrArray [0, 0, 0, 0, 0, 0, 0, 1, 0, 0, 0, 0, 0, 0]) 6 = Inr [7, 7] \<and>
   sorted_wrt (<) [6, 7 :: int] \<and> (0::int) \<le> 6 \<and> (6::int) \<le> 6 \<and> (6::int) \<le> 7 \<and>
   (0::int) \<le> 7 \<and> (7::int) < int (length [0, 0, 0, 0, 0, 0, 0, 1, 0, 0, 0, 0, 0, 0 :: real]) \<and>
   sorted [7, 7 :: int] \<and>
   peak_correction [IntSeed 1] (Series [10, 11, 12, 13] [0, 5, 0, 1]) 6 = Inr [11] \<and>
   length [10, 11, 12, 13 :: int] = length [0, 5, 0, 1 :: real] \<and>
   (11::int) \<in> set [10, 11, 12, 13] \<and>
   get_peaks (\<lambda>y q. Inr (Some 1)) (\<lambda>p. True) [0, 1, 0, 2, 2, 0, 3] (8 / 10) ''locs'' = Inr (Locs [1, 3]) \<and>
   sorted_wrt (<) [1, 3 :: nat] \<and> (3::nat) < length [0, 1, 0, 2, 2, 0, 3 :: real]"
proof -
  have upt14: "[0..<14] = [0, 1, 2, 3, 4, 5, 6, 7, 8, 9, 10, 11, 12, 13]" by code_simp
  have e: "peak_correction [IntSeed 6, IntSeed 7]
      (ListOrArray [0, 0, 0, 0, 0, 0, 0, 1, 0, 0, 0, 0, 0, 0]) 6 = Inr [7, 7]"
    by (simp add: peak_correction_def py_slice_def slice_bound_def idxmax_slice_def
        argmax_slice_def Let_def upt14)
  have f: "peak_correction [IntSeed 1] (Series [10, 11, 12, 13] [0, 5, 0, 1]) 6 = Inr [11]"
    by (simp add: peak_correction_def py_slice_def slice_bound_def idxmax_slice_def
        argmax_slice_def Let_def)
  have m: "local_maxima_from [0, 1, 0, 2, 2, 0, 3] 1 = [1, 3]"
    by (simp add: local_maxima_from.simps skip_plateau.simps)
  have g: "get_peaks (\<lambda>y q. Inr (Some 1)) (\<lambda>p. True) [0, 1, 0, 2, 2, 0, 3] (8 / 10) ''locs'' = Inr (Locs [1, 3])"
    unfolding get_peaks_def find_peaks_def local_maxima_1d_def m by simp
  have i: "sorted (signal_index (ListOrArray [0, 0, 0, 0, 0, 0, 0, 1, 0, 0, 0, 0, 0, 0]))"
    by (simp add: upt14)
  from e f g i peak_correction_in_range_and_sorted
    [of "[IntSeed 6, IntSeed 7]" "[0, 0, 0, 0, 0, 0, 0, 1, 0, 0, 0, 0, 0, 0]" 6 "[7, 7]"
        "[IntSeed 1]" "[10, 11, 12, 13]" "[0, 5, 0, 1]" 6 "[11]" "[6, 7]"
        "ListOrArray [0, 0, 0, 0, 0, 0, 0, 1, 0, 0, 0, 0, 0, 0]" "[7, 7]"
        "\<lambda>y q. Inr (Some 1)" "\<lambda>p. True" "[0, 1, 0, 2, 2, 0, 3]" "8 / 10" "''locs''" "Locs [1, 3]"]
  show ?thesis by simp
qed

text \<open>
  The claim as stated fails: seeds \<open>6\<close> and \<open>7\<close> are strictly increasing and both are
  refined to the same maximum at index \<open>7\<close>, so the result holds a duplicate. On a
  signal of ten samples the window of seed \<open>5\<close> starts at \<open>-1\<close>, which the slice
  counts from the end, so seeds \<open>5\<close> and \<open>6\<close> are refined to \<open>9\<close> and \<open>2\<close>, out of
  order. On a Series of four samples under the index \<open>10..13\<close> the seed \<open>1\<close> is
  refined to the label \<open>11\<close>, which is not in \<open>[0, 4)\<close>.
\<close>

theorem peak_correction_duplicate_counterexample:
  "peak_correction [IntSeed 6, IntSeed 7]
     (ListOrArray [0, 0, 0, 0, 0, 0, 0, 1, 0, 0, 0, 0, 0, 0]) 6 = Inr [7, 7] \<and>
   \<not> sorted_wrt (<) [7, 7 :: int] \<and>
   peak_correction [IntSeed 5, IntSeed 6] (ListOrArray [0, 0, 3, 0, 0, 0, 0, 0, 0, 0]) 6
     = Inr [9, 2] \<and>
   \<not> sorted [9, 2 :: int] \<and>
   peak_correction [IntSeed 1] (Series [10, 11, 12, 13] [0, 5, 0, 1]) 6 = Inr [11] \<and>
   \<not> (11::int) < int (length [0, 5, 0, 1 :: real])"
proof -
  have upt14: "[0..<14] = [0, 1, 2, 3, 4, 5, 6, 7, 8, 9, 10, 11, 12, 13]" by code_simp
  have upt10: "[0..<10] = [0, 1, 2, 3, 4, 5, 6, 7, 8, 9]" by code_simp
  show ?thesis
    by (simp add: peak_correction_def py_slice_def slice_bound_def idxmax_slice_def
        argmax_slice_def Let_def upt14 upt10)
qed

subsection \<open>Smoothing kernels: length of the result\<close>

lemma convolve_same_length:
  "convolve_same a v = Inr out \<Longrightarrow> length out = max (length a) (length v)"
  by (auto simp: convolve_same_def Let_def split: if_splits)

lemma convolve_same_returns:
  "a \<noteq> [] \<Longrightarrow> v \<noteq> [] \<Longrightarrow> \<exists>out. convolve_same a v = Inr out"
  by (auto simp: convolve_same_def Let_def split: if_splits)

lemma gaussian_window_length:
  "gaussian_window M std = Inr w \<Longrightarrow> length w = nat M"
  by (auto simp: gaussian_window_def split: if_splits)

lemma exponential_window_length:
  "exponential_window M tau = Inr w \<Longrightarrow> length w = nat M"
  by (auto simp: exponential_window_def split: if_splits)

lemma gaussian_window_returns: "0 \<le> M \<Longrightarrow> \<exists>w. gaussian_window M std = Inr w"
  by (auto simp: gaussian_window_def)

lemma exponential_window_returns: "0 \<le> M \<Longrightarrow> \<exists>w. exponential_window M tau = Inr w"
  by (auto simp: exponential_window_def)

lemma symmetric_gaussian_moving_average_length:
  assumes "symmetric_gaussian_moving_average y L std = Inr out"
  shows "length out = max (length y) (nat (if L mod 2 = 0 then L + 1 else L))"
proof -
  let ?L = "if L mod 2 = 0 then L + 1 else L"
  from assms obtain w where w: "gaussian_window ?L std = Inr w"
    and c: "convolve_same y (normalized_window w) = Inr out"
    by (auto simp: symmetric_gaussian_moving_average_def Let_def split: sum.splits)
  from convolve_same_length[OF c] gaussian_window_length[OF w]
  show ?thesis by (simp add: normalized_window_def)
qed

lemma symmetric_exponential_moving_average_length:
  assumes "symmetric_exponential_moving_average y L tau = Inr out"
  shows "length out = max (length y) (nat (if L mod 2 = 0 then L + 1 else L))"
proof -
  let ?L = "if L mod 2 = 0 then L + 1 else L"
  from assms obtain w where w: "exponential_window ?L tau = Inr w"
    and c: "convolve_same y (normalized_window w) = Inr out"
    by (auto simp: symmetric_exponential_moving_average_def Let_def split: sum.splits)
  from convolve_same_length[OF c] exponential_window_length[OF w]
  show ?thesis by (simp add: normalized_window_def)
qed

lemma symmetric_exponential_moving_average_returns:
  assumes "y \<noteq> []" "0 \<le> L"
  shows "\<exists>out. symmetric_exponential_moving_average y L tau = Inr out"
proof -
  let ?L = "if L mod 2 = 0 then L + 1 else L"
  have L: "1 \<le> ?L" using assms(2) by (cases "L = 0") auto
  then obtain w where w: "exponential_window ?L tau = Inr w"
    using exponential_window_returns[of ?L tau] by auto
  from exponential_window_length[OF w] L have "w \<noteq> []" by auto
  then have "normalized_window w \<noteq> []" by (simp add: normalized_window_def)
  from convolve_same_returns[OF assms(1) this] w show ?thesis
    by (simp add: symmetric_exponential_moving_average_def Let_def)
qed

lemma symmetric_gaussian_moving_average_returns:
  assumes "y \<noteq> []" "0 \<le> L"
  shows "\<exists>out. symmetric_gaussian_moving_average y L std = Inr out"
proof -
  let ?L = "if L mod 2 = 0 then L + 1 else L"
  have L: "1 \<le> ?L" using assms(2) by (cases "L = 0") auto
  then obtain w where w: "gaussian_window ?L std = Inr w"
    using gaussian_window_returns[of ?L std] by auto
  from gaussian_window_length[OF w] L have "w \<noteq> []" by auto
  then have "normalized_window w \<noteq> []" by (simp add: normalized_window_def)
  from convolve_same_returns[OF assms(1) this] w show ?thesis
    by (simp add: symmetric_gaussian_moving_average_def Let_def)
qed

text \<open>
  On a signal at least as long as the window (\<open>L\<close> forced odd) both kernels keep the
  length of the signal.
\<close>

lemma smoothing_keeps_length_of_long_signal:
  assumes "nat (if L mod 2 = 0 then L + 1 else L) \<le> length y"
  shows "symmetric_gaussian_moving_average y L std = Inr out \<Longrightarrow> length out = length y"
    and "symmetric_exponential_moving_average y L tau = Inr out' \<Longrightarrow> length out' = length y"
  using assms symmetric_gaussian_moving_average_length[of y L std out]
    symmetric_exponential_moving_average_length[of y L tau out']
  by simp_all

text \<open>
  C8. The claim asks for an output as long as the signal also when the signal is shorter
  than the window. The code does not do that: on the three samples \<open>[1, 2, 3]\<close> with
  the default \<open>L = 10\<close> (window length \<open>11\<close>) both kernels return \<open>11\<close> values, because
  the \<^verbatim>\<open>'same'\<close> mode of the convolution keeps the length of the longer argument.
\<close>

theorem smoothing_short_signal_length:
  "(\<exists>out. symmetric_gaussian_moving_average [Some 1, Some 2, Some 3] 10 (11 / 10) = Inr out \<and>
          length out = 11 \<and> length out \<noteq> length [Some 1, Some 2, Some (3::real)]) \<and>
   (\<exists>out. symmetric_exponential_moving_average [Some 1, Some 2, Some 3] 10 (11 / 10) = Inr out \<and>
          length out = 11 \<and> length out \<noteq> length [Some 1, Some 2, Some (3::real)])"
proof
  obtain out where o: "symmetric_gaussian_moving_average [Some 1, Some 2, Some 3] 10 (11 / 10) = Inr out"
    using symmetric_gaussian_moving_average_returns[of "[Some 1, Some 2, Some 3]" 10] by auto
  from symmetric_gaussian_moving_average_length[OF o] have "length out = 11" by simp
  with o show "\<exists>out. symmetric_gaussian_moving_average [Some 1, Some 2, Some 3] 10 (11 / 10) = Inr out \<and>
          length out = 11 \<and> length out \<noteq> length [Some 1, Some 2, Some (3::real)]" by auto
next
  obtain out where o: "symmetric_exponential_moving_average [Some 1, Some 2, Some 3] 10 (11 / 10) = Inr out"
    using symmetric_exponential_moving_average_returns[of "[Some 1, Some 2, Some 3]" 10] by auto
  from symmetric_exponential_moving_average_length[OF o] have "length out = 11" by simp
  with o show "\<exists>out. symmetric_exponential_moving_average [Some 1, Some 2, Some 3] 10 (11 / 10) = Inr out \<and>
          length out = 11 \<and> length out \<noteq> length [Some 1, Some 2, Some (3::real)]" by auto
qed

subsection \<open>Anomaly detector: the scan computes the spec's test\<close>

lemma scan_pairs_filter:
  "scan_pairs is dn d r pac = pac @ filter (\<lambda>i. fle (dn ! i) d \<and> fge (dn ! (i + 1)) r) is"
  by (induction "is" arbitrary: pac) simp_all

lemma length_series_diff [simp]: "length (series_diff xs) = length xs"
  by (cases xs) simp_all

lemma series_diff_nth:
  "i < length xs \<Longrightarrow> series_diff xs ! i = (if i = 0 then None else fsub (xs ! i) (xs ! (i - 1)))"
  by (cases xs; cases i) simp_all

lemma fillna_diff_nth:
  "i < length f \<Longrightarrow> fillna 0 (series_diff f) ! i = Some (spec_first_difference f i)"
  by (simp add: fillna_def series_diff_nth spec_first_difference_def split: option.splits)

lemma fillna_diff_eq:
  "fillna 0 (series_diff f) = map (\<lambda>i. Some (spec_first_difference f i)) [0..<length f]"
proof (rule nth_equalityI)
  show "length (fillna 0 (series_diff f)) = length (map (\<lambda>i. Some (spec_first_difference f i)) [0..<length f])"
    by (simp add: fillna_def)
next
  fix i assume "i < length (fillna 0 (series_diff f))"
  then have "i < length f" by (simp add: fillna_def)
  then show "fillna 0 (series_diff f) ! i = map (\<lambda>i. Some (spec_first_difference f i)) [0..<length f] ! i"
    by (simp add: fillna_diff_nth)
qed

lemma valid_values_Some: "valid_values (map (\<lambda>i. Some (g i)) xs) = map g xs"
  by (induction xs) (simp_all add: valid_values_def)

lemma series_max_Some:
  "xs \<noteq> [] \<Longrightarrow> series_max (map (\<lambda>i. Some (g i)) xs) = Some (Max (g ` set xs))"
proof -
  assume "xs \<noteq> []"
  then obtain y ys where xs: "xs = y # ys" by (cases xs) auto
  have "fold max (map g ys) (g y) = Max (set (g y # map g ys))"
    by (rule Max.set_eq_fold[symmetric])
  moreover have "valid_values (map (\<lambda>i. Some (g i)) xs) = g y # map g ys"
    using valid_values_Some[of g xs] unfolding xs by simp
  moreover have "g ` set xs = insert (g y) (g ` set ys)" by (simp add: xs)
  ultimately show ?thesis unfolding series_max_def by simp
qed

lemma normalized_difference_refines:
  assumes "i < length f"
  shows "map (\<lambda>x. fdiv x (series_max (map fabs (fillna 0 (series_diff f))))) (fillna 0 (series_diff f)) ! i
         = spec_normalized_difference f i"
proof -
  let ?d = "fillna 0 (series_diff f)"
  have ne: "[0..<length f] \<noteq> []" using assms by auto
  have "map fabs ?d = map (\<lambda>j. Some \<bar>spec_first_difference f j\<bar>) [0..<length f]"
    by (simp add: fillna_diff_eq)
  then have m: "series_max (map fabs ?d) = Some (Max ((\<lambda>j. \<bar>spec_first_difference f j\<bar>) ` {..<length f}))"
    using series_max_Some[OF ne, of "\<lambda>j. \<bar>spec_first_difference f j\<bar>"] by (simp add: lessThan_atLeast0)
  have "length ?d = length f" by (simp add: fillna_def)
  with assms show ?thesis
    by (simp add: m fillna_diff_nth spec_normalized_difference_def Let_def)
qed

lemma anomalies_of_series_refines:
  assumes "anomalies_of_series idx vals rise_kw drop_kw = Inr out"
  shows "\<exists>baseline. symmetric_exponential_moving_average vals 6 4 = Inr baseline \<and>
           length baseline = length vals \<and>
           out = map (\<lambda>i. idx ! i)
                   (filter (spec_flagged (map2 fsub vals baseline)
                              (case drop_kw of None \<Rightarrow> - 0.15 | Some d \<Rightarrow> d)
                              (case rise_kw of None \<Rightarrow> 0.25 | Some r \<Rightarrow> r))
                      [0..<length vals - 1])"
proof -
  from assms obtain baseline where b: "symmetric_exponential_moving_average vals 6 4 = Inr baseline"
    and l: "length baseline = length vals"
    by (auto simp: anomalies_of_series_def Let_def split: sum.splits if_splits)
  let ?f = "map2 fsub vals baseline"
  let ?d = "fillna 0 (series_diff ?f)"
  let ?dn = "map (\<lambda>x. fdiv x (series_max (map fabs ?d))) ?d"
  let ?drop = "case drop_kw of None \<Rightarrow> - 0.15 | Some d \<Rightarrow> d"
  let ?rise = "case rise_kw of None \<Rightarrow> 0.25 | Some r \<Rightarrow> r"
  have lf: "length ?f = length vals" using l by simp
  have ldn: "length ?dn = length vals" using lf by (simp add: fillna_def)
  have out: "out = map (\<lambda>i. idx ! i) (filter (\<lambda>i. fle (?dn ! i) ?drop \<and> fge (?dn ! (i + 1)) ?rise) [0..<length vals - 1])"
    using assms b l ldn by (simp add: anomalies_of_series_def Let_def scan_pairs_filter)
  have "filter (\<lambda>i. fle (?dn ! i) ?drop \<and> fge (?dn ! (i + 1)) ?rise) [0..<length vals - 1]
        = filter (spec_flagged ?f ?drop ?rise) [0..<length vals - 1]"
  proof (rule filter_cong[OF refl])
    fix i assume "i \<in> set [0..<length vals - 1]"
    then have i: "i < length ?f" "i + 1 < length ?f" using lf by auto
    show "(fle (?dn ! i) ?drop \<and> fge (?dn ! (i + 1)) ?rise) = spec_flagged ?f ?drop ?rise i"
      unfolding spec_flagged_def
      using normalized_difference_refines[OF i(1)] normalized_difference_refines[OF i(2)]
      by simp
  qed
  with out b l show ?thesis by simp
qed

text \<open>
  The detector returns on every Series of seven intervals or more; on a shorter one the
  baseline has the length of the window and the subtraction raises.
\<close>

lemma get_anomalies_from_rri_returns:
  assumes "7 \<le> length vals"
  shows "\<exists>out. get_anomalies_from_rri (PdSeries idx vals) indices rise_kw drop_kw = Inr out"
proof -
  have ne: "vals \<noteq> []" using assms by auto
  obtain baseline where b: "symmetric_exponential_moving_average vals 6 4 = Inr baseline"
    using symmetric_exponential_moving_average_returns[OF ne, of 6 4] by auto
  have "length baseline = length vals"
    using symmetric_exponential_moving_average_length[OF b] assms by simp
  then show ?thesis
    by (simp add: get_anomalies_from_rri_def anomalies_of_series_def b Let_def)
qed

lemma get_anomalies_from_rri_short_series:
  assumes "vals \<noteq> []" "length vals < 7"
  shows "get_anomalies_from_rri (PdSeries idx vals) indices rise_kw drop_kw
         = Inl (ValueError (LengthsDiffer (length vals) 7))"
proof -
  obtain baseline where b: "symmetric_exponential_moving_average vals 6 4 = Inr baseline"
    using symmetric_exponential_moving_average_returns[OF assms(1), of 6 4] by auto
  have "length baseline = 7"
    using symmetric_exponential_moving_average_length[OF b] assms by simp
  then show ?thesis
    using assms by (simp add: get_anomalies_from_rri_def anomalies_of_series_def b Let_def)
qed

subsection \<open>Anomaly detector: two runs\<close>

lemma upt6: "[0..<6] = [0, 1, 2, 3, 4, 5]"
  by code_simp

lemma upt7: "[0..<7] = [0, 1, 2, 3, 4, 5, 6]"
  by code_simp

lemma decay4_pos: "0 < decay4"
  by (simp add: decay4_def)

lemma decay4_lt1: "decay4 < 1"
  by (simp add: decay4_def)

lemma exponential_window_7_4:
  "exponential_window 7 4 = Inr [decay4 ^ 3, decay4 ^ 2, decay4, 1, decay4, decay4 ^ 2, decay4 ^ 3]"
proof -
  have e3: "exp (-(3/4)) = exp (-1/4 :: real) ^ 3"
    using exp_of_nat_mult[of 3 "-1/4::real"] by simp
  have e2: "exp (-(1/2)) = exp (-1/4 :: real) ^ 2"
    using exp_of_nat_mult[of 2 "-1/4::real"] by simp
  have n7: "nat 7 = 7" by simp
  show ?thesis
    by (simp add: exponential_window_def n7 upt7 e3 e2 decay4_def)
qed

lemma convolve_same_filled:
  "convolve_same rri_filled [Some c3, Some c2, Some c1, Some c0, Some c1, Some c2, Some c3]
   = Inr [Some 0, Some (- c3), Some (- c2), Some (- c1), Some (- c0), Some (- c1), Some (- c2)]"
  by (simp add: rri_filled_def convolve_same_def conv_full_at_def upt7)

lemma convolve_same_with_nan:
  "convolve_same rri_with_nan [Some c3, Some c2, Some c1, Some c0, Some c1, Some c2, Some c3]
   = Inr [None, None, None, None, None, None, None]"
  by (simp add: rri_with_nan_def convolve_same_def conv_full_at_def upt7)

lemma baseline_of_rri_filled:
  "symmetric_exponential_moving_average rri_filled 6 4 = Inr rri_filled_baseline"
  by (simp add: symmetric_exponential_moving_average_def exponential_window_7_4 normalized_window_def
      convolve_same_filled rri_filled_baseline_def window_sum4_def)

lemma baseline_of_rri_with_nan:
  "symmetric_exponential_moving_average rri_with_nan 6 4 = Inr [None, None, None, None, None, None, None]"
  by (simp add: symmetric_exponential_moving_average_def exponential_window_7_4 normalized_window_def
      convolve_same_with_nan)

lemma anomalies_of_rri_with_nan:
  "anomalies_of_series [0, 1, 2, 3, 4, 5, 6 :: int] rri_with_nan None None = Inr []"
  unfolding anomalies_of_series_def baseline_of_rri_with_nan
  by (simp add: fillna_def series_max_def valid_values_def upt6 rri_with_nan_def)

lemma impulse_inequalities:
  fixes a S :: real
  assumes a: "0 < a" "a < 1" and S: "S = a ^ 3 + a ^ 2 + a + 1 + a + a ^ 2 + a ^ 3"
  defines "m \<equiv> a / S + 1 - 1 / S"
  shows "0 < m" "\<bar>a ^ 3 / S\<bar> \<le> m" "\<bar>a ^ 2 / S - a ^ 3 / S\<bar> \<le> m" "\<bar>a / S - a ^ 2 / S\<bar> \<le> m"
    "\<bar>a ^ 2 / S - a / S\<bar> \<le> m" "0 < a ^ 3 / S" "0 < a ^ 2 / S - a ^ 3 / S" "0 < a / S - a ^ 2 / S"
proof -
  have a2: "0 < a ^ 2" "0 < a ^ 3" using a by simp_all
  have a21: "a ^ 2 < a" using a by (simp add: power2_eq_square)
  have a32: "a ^ 3 < a ^ 2" using a by (simp add: power3_eq_cube power2_eq_square)
  have Sp: "1 < S" using a a2 unfolding S by linarith
  then have S0: "0 < S" by simp
  have m: "m = (a + S - 1) / S" using S0 unfolding m_def by (simp add: field_simps)
  show "0 < m" unfolding m using S0 Sp a by simp
  show "0 < a ^ 3 / S" using a2 S0 by simp
  have d: "a ^ 2 / S - a ^ 3 / S = (a ^ 2 - a ^ 3) / S" "a / S - a ^ 2 / S = (a - a ^ 2) / S"
    "a ^ 2 / S - a / S = (a ^ 2 - a) / S"
    by (simp_all add: diff_divide_distrib)
  show "0 < a ^ 2 / S - a ^ 3 / S" unfolding d using a32 S0 by simp
  show "0 < a / S - a ^ 2 / S" unfolding d using a21 S0 by simp
  have le: "\<And>x. \<bar>x\<bar> \<le> a + S - 1 \<Longrightarrow> \<bar>x / S\<bar> \<le> m"
    unfolding m using S0 by (simp add: divide_right_mono)
  show "\<bar>a ^ 3 / S\<bar> \<le> m" by (rule le) (use a a2 in \<open>simp add: S\<close>)
  show "\<bar>a ^ 2 / S - a ^ 3 / S\<bar> \<le> m" unfolding d by (rule le) (use a a2 a32 in \<open>simp add: S\<close>)
  show "\<bar>a / S - a ^ 2 / S\<bar> \<le> m" unfolding d by (rule le) (use a a2 a21 in \<open>simp add: S\<close>)
  show "\<bar>a ^ 2 / S - a / S\<bar> \<le> m" unfolding d by (rule le) (use a a2 a21 in \<open>simp add: S\<close>)
qed

lemma series_max_abs:
  assumes "m \<in> set ds" "0 \<le> m" "\<forall>x\<in>set ds. \<bar>x\<bar> \<le> m"
  shows "series_max (map fabs (map Some ds)) = Some m"
proof -
  have ne: "ds \<noteq> []" using assms(1) by auto
  have "map fabs (map Some ds) = map (\<lambda>x. Some \<bar>x\<bar>) ds" by simp
  then have "series_max (map fabs (map Some ds)) = Some (Max ((\<lambda>x. \<bar>x\<bar>) ` set ds))"
    using series_max_Some[OF ne, of "\<lambda>x. \<bar>x\<bar>"] by (simp add: comp_def)
  moreover have "Max ((\<lambda>x. \<bar>x\<bar>) ` set ds) = m"
  proof (rule Max_eqI)
    show "finite ((\<lambda>x. \<bar>x\<bar>) ` set ds)" by simp
    show "\<And>y. y \<in> (\<lambda>x. \<bar>x\<bar>) ` set ds \<Longrightarrow> y \<le> m" using assms(3) by auto
    have "\<bar>m\<bar> = m" using assms(2) by simp
    then show "m \<in> (\<lambda>x. \<bar>x\<bar>) ` set ds" using assms(1) by force
  qed
  ultimately show ?thesis by simp
qed

lemma anomalies_of_rri_filled:
  "anomalies_of_series [0, 1, 2, 3, 4, 5, 6 :: int] rri_filled None None = Inr [4]"
proof -
  define m where "m = decay4 / window_sum4 + 1 - 1 / window_sum4"
  note I = impulse_inequalities[OF decay4_pos decay4_lt1 window_sum4_def, folded m_def]
  let ?a = decay4 and ?S = window_sum4
  let ?ds = "[0, ?a ^ 3 / ?S, ?a ^ 2 / ?S - ?a ^ 3 / ?S, ?a / ?S - ?a ^ 2 / ?S, - m, m, ?a ^ 2 / ?S - ?a / ?S]"
  have D: "fillna 0 (series_diff (map2 fsub rri_filled rri_filled_baseline)) = map Some ?ds"
    by (simp add: fillna_def m_def rri_filled_def rri_filled_baseline_def)
  have M: "series_max (map fabs (map Some ?ds)) = Some m"
    by (rule series_max_abs) (use I in simp_all)
  have m0: "m \<noteq> 0" using I(1) by simp
  have DN: "map (\<lambda>x. fdiv x (Some m)) (map Some ?ds) = map (\<lambda>x. Some (x / m)) ?ds"
    using m0 by simp
  have pos: "0 < ?a ^ 3 / ?S / m" "0 < (?a ^ 2 / ?S - ?a ^ 3 / ?S) / m" "0 < (?a / ?S - ?a ^ 2 / ?S) / m"
    by (rule divide_pos_pos[OF I(6) I(1)], rule divide_pos_pos[OF I(7) I(1)],
        rule divide_pos_pos[OF I(8) I(1)])
  have S: "scan_pairs [0, 1, 2, 3, 4, 5] (map (\<lambda>x. Some (x / m)) ?ds) (- 0.15) 0.25 [] = [4]"
    using pos m0 by simp
  have lenB: "(length rri_filled_baseline \<noteq> length rri_filled) = False"
    by (simp add: rri_filled_def rri_filled_baseline_def)
  have len: "[0..<length (map (\<lambda>x. Some (x / m)) ?ds) - 1] = [0, 1, 2, 3, 4, 5]"
    by (simp add: upt6)
  have idx: "map (\<lambda>i. [0, 1, 2, 3, 4, 5, 6 :: int] ! i) [4] = [4]" by simp
  show ?thesis
    unfolding anomalies_of_series_def baseline_of_rri_filled
    by (simp only: Let_def sum.case lenB if_False D M DN len option.case S idx)
qed

text \<open>
  C3. Whenever \<open>get_anomalies_from_rri\<close> returns, the smoothing of the interval series
  with \<open>L = 6\<close>, \<open>tau = 4\<close> gave a baseline of the same length, and the result is the
  list of index labels of exactly the positions \<open>i\<close> of the consecutive pairs
  \<open>(i, i + 1)\<close>, in increasing order, at which the normalized first difference of the
  detrended series is \<open>\<le> drop_threshold\<close> at \<open>i\<close> and \<open>\<ge> rise_threshold\<close> at \<open>i + 1\<close>;
  the thresholds default to \<open>-0.15\<close> and \<open>0.25\<close>.
\<close>

theorem get_anomalies_from_rri_flags:
  assumes "get_anomalies_from_rri rri indices rise_kw drop_kw = Inr out"
  shows "\<exists>idx vals baseline.
           (rri = PdSeries idx vals \<or> rri = RawArray vals \<and> indices = Some idx) \<and>
           symmetric_exponential_moving_average vals 6 4 = Inr baseline \<and>
           length baseline = length vals \<and>
           out = map (\<lambda>i. idx ! i)
                   (filter (spec_flagged (map2 fsub vals baseline)
                              (case drop_kw of None \<Rightarrow> - 0.15 | Some d \<Rightarrow> d)
                              (case rise_kw of None \<Rightarrow> 0.25 | Some r \<Rightarrow> r))
                      [0..<length vals - 1])"
proof (cases rri)
  case (RawArray vals)
  with assms obtain idx where i: "indices = Some idx"
    and a: "anomalies_of_series idx vals rise_kw drop_kw = Inr out"
    by (auto simp: get_anomalies_from_rri_def split: option.splits if_splits)
  from anomalies_of_series_refines[OF a] RawArray i show ?thesis by blast
next
  case (PdSeries idx vals)
  with assms have a: "anomalies_of_series idx vals rise_kw drop_kw = Inr out"
    by (simp add: get_anomalies_from_rri_def)
  from anomalies_of_series_refines[OF a] PdSeries show ?thesis by blast
qed

theorem get_anomalies_from_rri_flags_witness:
  "get_anomalies_from_rri (PdSeries [0, 1, 2, 3, 4, 5, 6 :: int] rri_filled) None None None = Inr [4] \<and>
   [4] = map (\<lambda>i. [0, 1, 2, 3, 4, 5, 6 :: int] ! i)
           (filter (spec_flagged (map2 fsub rri_filled rri_filled_baseline) (- 0.15) 0.25)
              [0..<length rri_filled - 1])"
proof -
  have r: "get_anomalies_from_rri (PdSeries [0, 1, 2, 3, 4, 5, 6 :: int] rri_filled) None None None = Inr [4]"
    by (simp add: get_anomalies_from_rri_def anomalies_of_rri_filled)
  from get_anomalies_from_rri_flags[OF r] baseline_of_rri_filled
  show ?thesis using r by auto
qed

text \<open>
  C4. The claim asks that a missing value is replaced by zero before detrending. The
  code computes the filled series and drops it, so the missing value reaches the
  smoothing: on \<open>[0, 0, 0, NaN, -1, 0, 0]\<close> every baseline value is \<^verbatim>\<open>NaN\<close> and nothing
  is flagged, while on the series filled with zero position \<open>4\<close> is flagged.
\<close>

theorem get_anomalies_from_rri_keeps_nan:
  "fillna 0 rri_with_nan = rri_filled \<and>
   get_anomalies_from_rri (PdSeries [0, 1, 2, 3, 4, 5, 6 :: int] rri_with_nan) None None None = Inr [] \<and>
   get_anomalies_from_rri (PdSeries [0, 1, 2, 3, 4, 5, 6 :: int] (fillna 0 rri_with_nan)) None None None
     = Inr [4]"
proof -
  have f: "fillna 0 rri_with_nan = rri_filled"
    by (simp add: fillna_def rri_with_nan_def rri_filled_def)
  show ?thesis
    unfolding f by (simp add: get_anomalies_from_rri_def anomalies_of_rri_with_nan anomalies_of_rri_filled)
qed


subsection \<open>Pulse metrics\<close>


lemma length_bfill [simp]: "length (bfill xs) = length xs"
  by (induction xs rule: bfill.induct) (auto split: list.splits)












lemma length_diffs_of [simp]: "length (diffs_of t) = length t"
  by (simp add: diffs_of_def)













subsection \<open>Transform-domain filter: length and errors\<close>

lemma length_fft [simp]: "length (fft y) = length y"
  by (simp add: fft_def Let_def)

lemma length_ifft [simp]: "length (ifft X) = length X"
  by (simp add: ifft_def Let_def)

lemma length_fftfreq [simp]: "length (fftfreq n) = n"
  by (simp add: fftfreq_def)

text \<open>
  C6. Whenever the transform-domain filter returns a result (for every band and
  reconstruction mode that does not raise), the result has the length of \<open>y\<close>.
\<close>

theorem frequency_filtering_fft_length:
  "frequency_filtering_fft y t upper lower reconstruction_mode = Inr out \<Longrightarrow> length out = length y"
  by (auto simp: frequency_filtering_fft_def time_axis_def band_mask_def frequency_axis_def Let_def
      split: sum.splits option.splits if_splits)

lemma frequency_filtering_fft_two_samples:
  "frequency_filtering_fft [1, 2] (Some [0, 1]) (Some (Fin 10)) None ''all'' = Inr [1, 2]"
  by (simp add: frequency_filtering_fft_def time_axis_def band_mask_def frequency_axis_def Let_def
      np_diff_def np_mean_def fftfreq_def fft_def ifft_def upt_rec_numeral)

theorem frequency_filtering_fft_length_witness:
  "frequency_filtering_fft [1, 2] (Some [0, 1]) (Some (Fin 10)) None ''all'' = Inr [1, 2] \<and>
   length [1, 2 :: real] = length [1, 2 :: real]"
  using frequency_filtering_fft_length[OF frequency_filtering_fft_two_samples]
    frequency_filtering_fft_two_samples by simp

text \<open>
  C7. A time axis whose length differs from that of \<open>y\<close> raises the dimension error,
  whose message carries both lengths. A reconstruction mode other than \<open>all\<close> and
  \<open>positive\<close> always ends in a \<^verbatim>\<open>ValueError\<close> and never in a result; it is the error of
  the reconstruction mode whenever the shape check passes and \<open>y\<close> is not empty (the
  shape check and the minimum of an empty time axis come first in the source).
\<close>

theorem frequency_filtering_fft_errors:
  "(t = Some ts \<and> length y \<noteq> length ts \<longrightarrow>
      frequency_filtering_fft y t upper lower reconstruction_mode
        = Inl (ValueError (DimensionMismatch (length y) (length ts)))) \<and>
   (reconstruction_mode \<noteq> ''all'' \<and> reconstruction_mode \<noteq> ''positive'' \<longrightarrow>
      (\<exists>m. frequency_filtering_fft y t upper lower reconstruction_mode = Inl (ValueError m)) \<and>
      (y \<noteq> [] \<and> (t = None \<or> (\<exists>ts'. t = Some ts' \<and> length y = length ts')) \<longrightarrow>
         frequency_filtering_fft y t upper lower reconstruction_mode
           = Inl (ValueError BadReconstructionMode)))"
  by (auto simp: frequency_filtering_fft_def time_axis_def Let_def split: option.splits)

theorem frequency_filtering_fft_errors_witness:
  "length [1, 2 :: real] \<noteq> length [0 :: real] \<and>
   frequency_filtering_fft [1, 2] (Some [0]) (Some (Fin 10)) None ''all''
     = Inl (ValueError (DimensionMismatch 2 1)) \<and>
   ''cosine'' \<noteq> ''all'' \<and> ''cosine'' \<noteq> ''positive'' \<and> [1, 2 :: real] \<noteq> [] \<and>
   frequency_filtering_fft [1, 2] None (Some (Fin 10)) None ''cosine''
     = Inl (ValueError BadReconstructionMode)"
  using frequency_filtering_fft_errors[of "Some [0]" "[0]" "[1, 2]" "Some (Fin 10)" None "''all''"]
    frequency_filtering_fft_errors[of None "[]" "[1, 2]" "Some (Fin 10)" None "''cosine''"]
  by simp

subsection \<open>Transform-domain filter: the band that covers everything\<close>

lemma cis_eq_one_int:
  assumes "cis x = 1"
  shows "\<exists>n::int. x = of_int n * 2 * pi"
proof -
  from assms have "cos x = 1" by (simp add: complex_eq_iff)
  then show ?thesis by (simp add: cos_one_2pi_int)
qed

lemma unit_root_sum_zero:
  fixes d :: int
  assumes N: "0 < N" and d: "d \<noteq> 0" "\<bar>d\<bar> < int N"
  shows "(\<Sum>k<N. cis (2 * pi * real k * real_of_int d / real N)) = 0"
proof -
  define w where "w = cis (2 * pi * real_of_int d / real N)"
  have w1: "w \<noteq> 1"
  proof
    assume "w = 1"
    then obtain n :: int where n: "2 * pi * real_of_int d / real N = of_int n * 2 * pi"
      unfolding w_def using cis_eq_one_int by blast
    have "real_of_int d = of_int n * real N"
      using n N by (simp add: field_simps)
    then have "real_of_int d = real_of_int (n * int N)" by simp
    then have dn: "d = n * int N" by (simp only: of_int_eq_iff)
    show False
    proof (cases "n = 0")
      case True
      with dn d(1) show False by simp
    next
      case False
      then have "1 \<le> \<bar>n\<bar>" by simp
      then have "int N \<le> \<bar>n\<bar> * int N" by (simp add: mult_le_cancel_right1)
      also have "\<dots> = \<bar>d\<bar>" by (simp add: dn abs_mult)
      finally show False using d(2) by simp
    qed
  qed
  have wN: "w ^ N = 1"
  proof -
    have "w ^ N = cis (real N * (2 * pi * real_of_int d / real N))"
      unfolding w_def by (rule DeMoivre)
    also have "real N * (2 * pi * real_of_int d / real N) = 2 * pi * real_of_int d"
      using N by simp
    also have "cis (2 * pi * real_of_int d) = 1"
      by (rule cis_multiple_2pi) simp
    finally show ?thesis .
  qed
  have "(\<Sum>k<N. cis (2 * pi * real k * real_of_int d / real N)) = (\<Sum>k<N. w ^ k)"
  proof (rule sum.cong[OF refl])
    fix k
    have "w ^ k = cis (real k * (2 * pi * real_of_int d / real N))"
      unfolding w_def by (rule DeMoivre)
    then show "cis (2 * pi * real k * real_of_int d / real N) = w ^ k"
      by (simp add: mult_ac)
  qed
  also have "\<dots> = (w ^ N - 1) / (w - 1)" using w1 by (rule geometric_sum)
  also have "\<dots> = 0" by (simp add: wN)
  finally show ?thesis .
qed

lemma unit_root_sum:
  assumes "m < N" "j < N"
  shows "(\<Sum>k<N. cis (2 * pi * real k * (real m - real j) / real N))
         = (if j = m then of_nat N else 0)"
proof (cases "j = m")
  case True
  then show ?thesis by simp
next
  case False
  have e: "real m - real j = real_of_int (int m - int j)" by simp
  have "(\<Sum>k<N. cis (2 * pi * real k * real_of_int (int m - int j) / real N)) = 0"
    using assms False by (intro unit_root_sum_zero) auto
  with False show ?thesis unfolding e by simp
qed

lemma sum_list_upt_sum: "sum_list (map f [0..<n]) = sum f {..<n}"
  by (simp add: interv_sum_list_conv_sum_set_nat lessThan_atLeast0)

lemma fft_nth:
  "k < length y \<Longrightarrow> fft y ! k =
     (\<Sum>j<length y. complex_of_real (y ! j) * cis (- (2 * pi * real j * real k / real (length y))))"
  by (simp add: fft_def Let_def sum_list_upt_sum)

lemma ifft_fft_nth:
  assumes m: "m < length y"
  shows "ifft (fft y) ! m = complex_of_real (y ! m)"
proof -
  let ?N = "length y"
  have N0: "0 < ?N" using m by (cases y) simp_all
  have "ifft (fft y) ! m = (\<Sum>k<?N. fft y ! k * cis (2 * pi * real k * real m / real ?N)) / of_nat ?N"
    using m by (simp add: ifft_def Let_def sum_list_upt_sum)
  also have "(\<Sum>k<?N. fft y ! k * cis (2 * pi * real k * real m / real ?N))
      = (\<Sum>k<?N. \<Sum>j<?N. complex_of_real (y ! j) * cis (2 * pi * real k * (real m - real j) / real ?N))"
  proof (rule sum.cong[OF refl])
    fix k assume "k \<in> {..<?N}"
    then have k: "k < ?N" by simp
    have "fft y ! k * cis (2 * pi * real k * real m / real ?N)
        = (\<Sum>j<?N. complex_of_real (y ! j) * cis (- (2 * pi * real j * real k / real ?N))
                      * cis (2 * pi * real k * real m / real ?N))"
      by (simp add: fft_nth[OF k] sum_distrib_right)
    also have "\<dots> = (\<Sum>j<?N. complex_of_real (y ! j) * cis (2 * pi * real k * (real m - real j) / real ?N))"
    proof (rule sum.cong[OF refl])
      fix j
      have "- (2 * pi * real j * real k / real ?N) + 2 * pi * real k * real m / real ?N
          = 2 * pi * real k * (real m - real j) / real ?N"
        by (simp add: algebra_simps diff_divide_distrib)
      then show "complex_of_real (y ! j) * cis (- (2 * pi * real j * real k / real ?N))
                      * cis (2 * pi * real k * real m / real ?N)
          = complex_of_real (y ! j) * cis (2 * pi * real k * (real m - real j) / real ?N)"
        by (simp add: mult.assoc cis_mult)
    qed
    finally show "fft y ! k * cis (2 * pi * real k * real m / real ?N)
        = (\<Sum>j<?N. complex_of_real (y ! j) * cis (2 * pi * real k * (real m - real j) / real ?N))" .
  qed
  also have "\<dots> = (\<Sum>j<?N. \<Sum>k<?N. complex_of_real (y ! j) * cis (2 * pi * real k * (real m - real j) / real ?N))"
    by (rule sum.swap)
  also have "\<dots> = (\<Sum>j<?N. complex_of_real (y ! j) * (if j = m then of_nat ?N else 0))"
  proof (rule sum.cong[OF refl])
    fix j assume "j \<in> {..<?N}"
    then have j: "j < ?N" by simp
    show "(\<Sum>k<?N. complex_of_real (y ! j) * cis (2 * pi * real k * (real m - real j) / real ?N))
        = complex_of_real (y ! j) * (if j = m then of_nat ?N else 0)"
      unfolding sum_distrib_left[symmetric] unit_root_sum[OF m j] ..
  qed
  also have "\<dots> = (\<Sum>j<?N. if j = m then complex_of_real (y ! j) * of_nat ?N else 0)"
    by (rule sum.cong[OF refl]) simp
  also have "\<dots> = complex_of_real (y ! m) * of_nat ?N"
    using m by (simp add: sum.delta)
  finally show ?thesis using N0 by simp
qed

lemma re_ifft_fft: "map Re (ifft (fft y)) = y"
  by (rule nth_equalityI) (simp_all add: ifft_fft_nth)

lemma length_np_diff [simp]: "length (np_diff xs) = length xs - 1"
  by (simp add: np_diff_def)

lemma np_diff_shift: "np_diff (map (\<lambda>x. x - c) xs) = np_diff xs"
  unfolding np_diff_def by (rule nth_equalityI) (simp_all add: nth_tl)

lemma sum_list_np_diff: "xs \<noteq> [] \<Longrightarrow> sum_list (np_diff xs) = last xs - hd xs"
proof (induction xs)
  case Nil
  then show ?case by simp
next
  case (Cons x xs)
  show ?case
  proof (cases xs)
    case Nil
    then show ?thesis by (simp add: np_diff_def)
  next
    case (Cons z zs)
    have "np_diff (x # xs) = (z - x) # np_diff xs"
      by (simp add: np_diff_def Cons)
    moreover have "sum_list (np_diff xs) = last xs - hd xs"
      using Cons.IH Cons by simp
    ultimately show ?thesis using Cons by simp
  qed
qed

lemma sampling_frequency_finite:
  assumes "2 \<le> length ts" "last ts \<noteq> hd ts"
  shows "\<exists>r. flt_reciprocal (np_mean (np_diff (map (\<lambda>x. x - c) ts))) = Fin r"
proof -
  have ne: "ts \<noteq> []" using assms(1) by auto
  have dne: "np_diff ts \<noteq> []" using assms(1) by (simp flip: length_greater_0_conv)
  have "sum_list (np_diff ts) / real (length (np_diff ts)) \<noteq> 0"
    using assms sum_list_np_diff[OF ne] by simp
  then show ?thesis
    using dne by (simp add: np_diff_shift np_mean_def)
qed

lemma arange_spacing:
  assumes "2 \<le> n"
  shows "last (map real [0..<n]) \<noteq> hd (map real [0..<n])"
proof -
  have n: "[0..<n] \<noteq> []" using assms by simp
  have "last (map real [0..<n]) = real (n - 1)"
    using n by (simp add: last_map)
  moreover have "hd (map real [0..<n]) = 0"
    using n by (simp add: hd_map)
  ultimately show ?thesis using assms by simp
qed

lemma mask_all_pass:
  "map2 (\<lambda>x b. if b then x else 0) X (map (\<lambda>f. True) fs) = take (length fs) X"
  by (rule nth_equalityI) simp_all

lemma frequency_axis_finite:
  assumes "2 \<le> length ts" "last ts \<noteq> hd ts"
  shows "\<exists>r. frequency_axis (map (\<lambda>x. x - c) ts) N = map (\<lambda>f. Fin (f * r)) (fftfreq N)"
proof -
  obtain r where "flt_reciprocal (np_mean (np_diff (map (\<lambda>x. x - c) ts))) = Fin r"
    using sampling_frequency_finite[OF assms] by blast
  then have "frequency_axis (map (\<lambda>x. x - c) ts) N = map (\<lambda>f. Fin (f * r)) (fftfreq N)"
    by (simp add: frequency_axis_def)
  then show ?thesis by blast
qed

lemma all_pass_core:
  assumes "2 \<le> length y" "length ts = length y" "last ts \<noteq> hd ts"
    and "time_axis y t = Inr ts"
    and "reconstruction_mode = ''all'' \<or> reconstruction_mode = ''positive''"
  shows "frequency_filtering_fft y t (Some PInf) None reconstruction_mode = Inr y"
proof -
  have ne: "ts \<noteq> []" using assms(1,2) by auto
  obtain r where r: "frequency_axis (map (\<lambda>x. x - Min (set ts)) ts) (length y)
      = map (\<lambda>f. Fin (f * r)) (fftfreq (length y))"
    using frequency_axis_finite[of ts "Min (set ts)" "length y"] assms(1,2,3) by auto
  have m1: "band_mask (Some PInf) None (map (\<lambda>f. Fin (f * r)) (fftfreq (length y)))
      = Inr (map (\<lambda>f. True) (fftfreq (length y)))"
    by (simp add: band_mask_def)
  have m2: "band_mask (Some PInf) None (map flt_abs (map (\<lambda>f. Fin (f * r)) (fftfreq (length y))))
      = Inr (map (\<lambda>f. True) (fftfreq (length y)))"
    by (simp add: band_mask_def)
  have X: "map2 (\<lambda>x b. if b then x else 0) (fft y) (map (\<lambda>f. True) (fftfreq (length y))) = fft y"
    by (simp add: mask_all_pass)
  from assms(5) show ?thesis
  proof
    assume "reconstruction_mode = ''all''"
    then show ?thesis
      unfolding frequency_filtering_fft_def assms(4)
      by (simp only: sum.case ne if_False Let_def r if_True simp_thms m2 X re_ifft_fft)
  next
    assume p: "reconstruction_mode = ''positive''"
    have na: "(''positive'' = ''all'') = False" by simp
    show ?thesis
      unfolding frequency_filtering_fft_def assms(4) p
      by (simp only: sum.case ne if_False Let_def r na not_True_eq_False simp_thms m1 X re_ifft_fft)
  qed
qed

lemma frequency_filtering_fft_all_pass_times:
  assumes "2 \<le> length y" "length ts = length y" "last ts \<noteq> hd ts"
    and "reconstruction_mode = ''all'' \<or> reconstruction_mode = ''positive''"
  shows "frequency_filtering_fft y (Some ts) (Some PInf) None reconstruction_mode = Inr y"
  using assms by (intro all_pass_core[of y ts]) (simp_all add: time_axis_def)

lemma frequency_filtering_fft_all_pass_arange:
  assumes "2 \<le> length y"
    and "reconstruction_mode = ''all'' \<or> reconstruction_mode = ''positive''"
  shows "frequency_filtering_fft y None (Some PInf) None reconstruction_mode = Inr y"
  using assms arange_spacing[OF assms(1)]
  by (intro all_pass_core[of y "map real [0..<length y]"]) (simp_all add: time_axis_def)

text \<open>
  C5, as amended. With the lower bound absent and the upper bound infinite, in either
  reconstruction mode, the filter returns \<open>y\<close> itself, over exact arithmetic, whenever
  \<open>y\<close> has at least two samples and the time axis is absent or has the length of \<open>y\<close>
  and a last value different from its first (so that the mean sample spacing is not
  zero).
\<close>

theorem frequency_filtering_fft_all_pass:
  "2 \<le> length y \<and>
   (t = None \<or> (\<exists>ts. t = Some ts \<and> length ts = length y \<and> last ts \<noteq> hd ts)) \<and>
   (reconstruction_mode = ''all'' \<or> reconstruction_mode = ''positive'') \<longrightarrow>
   frequency_filtering_fft y t (Some PInf) None reconstruction_mode = Inr y"
  using frequency_filtering_fft_all_pass_times frequency_filtering_fft_all_pass_arange by blast

theorem frequency_filtering_fft_all_pass_witness:
  "(2::nat) \<le> length [1, 2 :: real] \<and> length [0, 1 :: real] = length [1, 2 :: real] \<and>
   last [0, 1 :: real] \<noteq> hd [0, 1] \<and>
   frequency_filtering_fft [1, 2] (Some [0, 1]) (Some PInf) None ''all'' = Inr [1, 2]"
  using frequency_filtering_fft_all_pass[of "[1, 2]" "Some [0, 1]" "''all''"] by simp

text \<open>
  The claim as stated fails on a single sample, where there is no sample spacing and
  the frequency axis is \<^verbatim>\<open>NaN\<close>, and on a constant time axis, where the sampling
  frequency is infinite: no bin passes the band test and the result is zero.
\<close>

theorem frequency_filtering_fft_all_pass_counterexample:
  "frequency_filtering_fft [5] None (Some PInf) None ''all'' = Inr [0] \<and> [0] \<noteq> [5 :: real] \<and>
   frequency_filtering_fft [1, 2] (Some [0, 0]) (Some PInf) None ''all'' = Inr [0, 0] \<and>
   [0, 0] \<noteq> [1, 2 :: real]"
  by (simp add: frequency_filtering_fft_def time_axis_def band_mask_def frequency_axis_def Let_def
      np_diff_def np_mean_def fftfreq_def fft_def ifft_def)


subsection \<open>Heartbeat segmenter\<close>

lemma upt13: "[0..<13] = [0, 1, 2, 3, 4, 5, 6, 7, 8, 9, 10, 11, 12]"
  by code_simp

lemma upt3: "[0..<3] = [0, 1, 2]"
  by code_simp

lemma example_heartbeats: "get_label_data example_table [''N''] = Inr [1, 2, 3, 10, 11, 12]"
  by (simp add: get_label_data_def example_table_def nrows_def cell_at_def upt13)

lemma example_breaks: "get_label_data example_table [''~''] = Inr [5]"
  by (simp add: get_label_data_def example_table_def nrows_def cell_at_def upt13)

lemma unmarked_heartbeats: "get_label_data unmarked_table [''N''] = Inr [1, 2, 3, 10, 11, 12]"
  by (simp add: get_label_data_def unmarked_table_def nrows_def cell_at_def upt13)

lemma unlabelled_heartbeats: "get_label_data unlabelled_table [''N''] = Inr []"
  by (simp add: get_label_data_def unlabelled_table_def nrows_def cell_at_def upt3)

lemma unlabelled_breaks: "get_label_data unlabelled_table [''~''] = Inr [1]"
  by (simp add: get_label_data_def unlabelled_table_def nrows_def cell_at_def upt3)

lemma segmenting_loop_example:
  "segmenting_loop [1, 2, 3, 10, 11, 12] [5] 0 0 [] = Some [[1, 2, 3], [10, 11, 12]]"
  by (simp add: segmenting_loop.simps Let_def)

lemma segmenting_loop_returns_nonempty:
  assumes "segmenting_loop heartbeats breaks step last_break segs = Some y"
  shows "heartbeats \<noteq> []"
proof (rule segmenting_loop.raw_induct[where P = "\<lambda>hb br st lb sg r. hb \<noteq> []", OF _ assms])
  fix loop :: "nat list \<Rightarrow> nat list \<Rightarrow> nat \<Rightarrow> nat \<Rightarrow> nat list list \<Rightarrow> nat list list option"
  fix hb br :: "nat list" and st lb :: nat and sg r :: "nat list list"
  assume IH: "\<And>hb br st lb sg r. loop hb br st lb sg = Some r \<Longrightarrow> hb \<noteq> []"
  assume body: "(let segment = if length br \<le> st then filter ((\<le>) lb) hb
                      else filter (\<lambda>i. lb \<le> i \<and> i \<le> br ! st) hb
      in if segment = [] then loop hb br (st + 1) lb sg
         else let heartbeat_segments' = sg @ [segment];
                  last_break' = last segment + 1;
                  remainder = filter ((<) last_break') hb
              in if remainder = [] then Some heartbeat_segments'
                 else loop hb br (st + 1) (hd remainder) heartbeat_segments') = Some r"
  show "hb \<noteq> []"
  proof
    assume e: "hb = []"
    with body have "loop hb br (st + 1) lb sg = Some r" by (simp add: Let_def)
    from IH[OF this] e show False by simp
  qed
qed

lemma segmenting_loop_no_heartbeats: "segmenting_loop [] breaks step last_break segs = None"
proof (cases "segmenting_loop [] breaks step last_break segs")
  case None
  then show ?thesis .
next
  case (Some y)
  from segmenting_loop_returns_nonempty[OF this] show ?thesis by simp
qed

lemma get_label_data_sorted: "get_label_data tbl label = Inr rows \<Longrightarrow> sorted rows"
  using sorted_filter[of id "[0..<nrows tbl]"]
  by (auto simp: get_label_data_def split: sum.splits)

lemma segmenting_loop_no_breaks:
  assumes "heartbeats \<noteq> []" "sorted heartbeats"
  shows "segmenting_loop heartbeats [] 0 0 [] = Some [heartbeats]"
proof -
  have "\<forall>i\<in>set heartbeats. i \<le> last heartbeats"
  proof
    fix i assume "i \<in> set heartbeats"
    then obtain k where k: "k < length heartbeats" "heartbeats ! k = i"
      by (auto simp: in_set_conv_nth)
    have "heartbeats ! k \<le> heartbeats ! (length heartbeats - 1)"
      using assms(2) k(1) by (intro sorted_nth_mono) auto
    then show "i \<le> last heartbeats"
      using k(2) assms(1) by (simp add: last_conv_nth)
  qed
  then have r: "filter ((<) (Suc (last heartbeats))) heartbeats = []"
    by (auto simp: filter_empty_conv)
  have s: "filter (\<lambda>i. 0 \<le> i) heartbeats = heartbeats" by simp
  show ?thesis
    by (subst segmenting_loop.simps) (simp add: Let_def s r assms(1))
qed

text \<open>
  Where the method returns: on the heartbeat rows \<open>[1, 2, 3, 10, 11, 12]\<close> and the break
  row \<open>[5]\<close> it returns the two segments \<open>[1, 2, 3]\<close> and \<open>[10, 11, 12]\<close>; with no marker
  label in the label list it returns the heartbeat set as a single segment, and so it
  does when a marker label is there but marks no row and the heartbeat set is not
  empty; with no table loaded or an empty label list it returns the empty list.
\<close>

lemma get_heartbeats_where_it_returns:
  "(plot_data self = Some tbl \<and> label_list self \<noteq> [] \<and>
      get_label_data tbl (filter (\<lambda>key. key \<in> set (label_list self)) heartbeat_classes)
        = Inr [1, 2, 3, 10, 11, 12] \<and>
      filter (\<lambda>marker. marker \<in> set (label_list self)) segment_denominators \<noteq> [] \<and>
      get_label_data tbl (filter (\<lambda>marker. marker \<in> set (label_list self)) segment_denominators)
        = Inr [5]
    \<longrightarrow> get_heartbeats heartbeat_classes segment_denominators self
        = Some (Inr [[1, 2, 3], [10, 11, 12]])) \<and>
   (plot_data self = Some tbl \<and> label_list self \<noteq> [] \<and>
      get_label_data tbl (filter (\<lambda>key. key \<in> set (label_list self)) heartbeat_classes)
        = Inr heartbeats \<and>
      filter (\<lambda>marker. marker \<in> set (label_list self)) segment_denominators = []
    \<longrightarrow> get_heartbeats heartbeat_classes segment_denominators self = Some (Inr [heartbeats])) \<and>
   (plot_data self = Some tbl \<and> label_list self \<noteq> [] \<and>
      get_label_data tbl (filter (\<lambda>key. key \<in> set (label_list self)) heartbeat_classes)
        = Inr heartbeats \<and> heartbeats \<noteq> [] \<and>
      filter (\<lambda>marker. marker \<in> set (label_list self)) segment_denominators \<noteq> [] \<and>
      get_label_data tbl (filter (\<lambda>marker. marker \<in> set (label_list self)) segment_denominators)
        = Inr []
    \<longrightarrow> get_heartbeats heartbeat_classes segment_denominators self = Some (Inr [heartbeats])) \<and>
   (plot_data self = None \<or> label_list self = []
    \<longrightarrow> get_heartbeats heartbeat_classes segment_denominators self = Some (Inr []))"
proof (intro conjI impI)
  assume h: "plot_data self = Some tbl \<and> label_list self \<noteq> [] \<and>
      get_label_data tbl (filter (\<lambda>key. key \<in> set (label_list self)) heartbeat_classes)
        = Inr [1, 2, 3, 10, 11, 12] \<and>
      filter (\<lambda>marker. marker \<in> set (label_list self)) segment_denominators \<noteq> [] \<and>
      get_label_data tbl (filter (\<lambda>marker. marker \<in> set (label_list self)) segment_denominators)
        = Inr [5]"
  then have m: "(length (filter (\<lambda>marker. marker \<in> set (label_list self)) segment_denominators) = 0) = False"
    by simp
  from h have l: "(label_list self = []) = False" by simp
  from h show "get_heartbeats heartbeat_classes segment_denominators self
        = Some (Inr [[1, 2, 3], [10, 11, 12]])"
    unfolding get_heartbeats_def
    by (simp only: option.case l if_False Let_def sum.case m segmenting_loop_example option.map)
next
  assume "plot_data self = Some tbl \<and> label_list self \<noteq> [] \<and>
      get_label_data tbl (filter (\<lambda>key. key \<in> set (label_list self)) heartbeat_classes)
        = Inr heartbeats \<and>
      filter (\<lambda>marker. marker \<in> set (label_list self)) segment_denominators = []"
  then show "get_heartbeats heartbeat_classes segment_denominators self = Some (Inr [heartbeats])"
    by (simp add: get_heartbeats_def Let_def)
next
  assume h: "plot_data self = Some tbl \<and> label_list self \<noteq> [] \<and>
      get_label_data tbl (filter (\<lambda>key. key \<in> set (label_list self)) heartbeat_classes)
        = Inr heartbeats \<and> heartbeats \<noteq> [] \<and>
      filter (\<lambda>marker. marker \<in> set (label_list self)) segment_denominators \<noteq> [] \<and>
      get_label_data tbl (filter (\<lambda>marker. marker \<in> set (label_list self)) segment_denominators)
        = Inr []"
  then have "sorted heartbeats" using get_label_data_sorted by blast
  with h have "segmenting_loop heartbeats [] 0 0 [] = Some [heartbeats]"
    by (simp add: segmenting_loop_no_breaks)
  with h show "get_heartbeats heartbeat_classes segment_denominators self = Some (Inr [heartbeats])"
    by (simp add: get_heartbeats_def Let_def)
next
  assume "plot_data self = None \<or> label_list self = []"
  then show "get_heartbeats heartbeat_classes segment_denominators self = Some (Inr [])"
    by (auto simp: get_heartbeats_def split: option.splits)
qed

lemma get_heartbeats_example:
  "get_heartbeats [''N''] [''~''] \<lparr>plot_data = Some example_table, label_list = [''N'', ''~'']\<rparr>
     = Some (Inr [[1, 2, 3], [10, 11, 12]])"
proof -
  let ?h = "\<lparr>plot_data = Some example_table, label_list = [''N'', ''~'']\<rparr>"
  have f: "filter (\<lambda>key. key \<in> set (label_list ?h)) [''N''] = [''N'']"
    "filter (\<lambda>marker. marker \<in> set (label_list ?h)) [''~''] = [''~'']"
    by simp_all
  show ?thesis
    using get_heartbeats_where_it_returns[of ?h example_table "[''N'']" "[''~'']"]
    unfolding f using example_heartbeats example_breaks by simp
qed

lemma get_heartbeats_single_segment_example:
  "get_heartbeats [''N''] [''~''] \<lparr>plot_data = Some unmarked_table, label_list = [''N'']\<rparr>
     = Some (Inr [[1, 2, 3, 10, 11, 12]])"
  by (simp add: get_heartbeats_def unmarked_heartbeats)

text \<open>
  With no heartbeat row and a marker label in the label list, every segment is empty
  and the loop only counts its steps: the call never returns, whatever the rows of the
  breaks are.
\<close>

lemma get_heartbeats_no_heartbeats_loops:
  assumes "plot_data self = Some tbl" and "label_list self \<noteq> []"
    and "get_label_data tbl (filter (\<lambda>key. key \<in> set (label_list self)) heartbeat_classes) = Inr []"
    and "filter (\<lambda>marker. marker \<in> set (label_list self)) segment_denominators \<noteq> []"
    and "get_label_data tbl (filter (\<lambda>marker. marker \<in> set (label_list self)) segment_denominators)
           = Inr breaks"
  shows "get_heartbeats heartbeat_classes segment_denominators self = None"
  using assms by (simp add: get_heartbeats_def Let_def segmenting_loop_no_heartbeats)

text \<open>
  C1. The claim asks for the empty list whenever no heartbeat index is present, for
  every marker set. The code does not return it. In the recording \<open>unlabelled_table\<close>
  the labels \<^verbatim>\<open>N\<close> and \<^verbatim>\<open>~\<close> are declared, no row carries the heartbeat label and row
  \<open>1\<close> carries the marker: the set of heartbeats is empty, and the call never returns.
\<close>

theorem get_heartbeats_no_heartbeats_never_returns:
  "get_label_data unlabelled_table [''N''] = Inr [] \<and>
   get_label_data unlabelled_table [''~''] = Inr [1] \<and>
   get_heartbeats [''N''] [''~''] \<lparr>plot_data = Some unlabelled_table, label_list = [''N'', ''~'']\<rparr>
     = None"
  by (simp add: get_heartbeats_def unlabelled_heartbeats unlabelled_breaks
      segmenting_loop_no_heartbeats)

end
